theory Spec2Isabelle
  imports Main "HOL-Library.Word" "HOL-Library.Multiset"
begin

section \<open>Data model of cmd/main/main.go\<close>

text \<open>
  Go strings are byte sequences: \<^typ>\<open>string\<close>. \<open>int64\<close> is \<^typ>\<open>64 word\<close>, read
  through \<^const>\<open>sint\<close> wherever the source compares; \<open>+\<close> wraps as in Go. Go's \<open>int\<close>
  (the counters of \<open>Stats\<close>) is taken at its 64-bit width.
\<close>

type_synonym int64 = "64 word"

text \<open>
  A finite \<open>float64\<close> is a dyadic rational: \<open>F64 m k\<close> stands for \<open>m / 2 ^ k\<close>.
  Only \<open>Stats.Duration\<close> and the quotient inside \<open>formatBytes\<close> are floats.
\<close>

datatype float64 = F64 int nat

record Config =
  InputDir :: string
  OutputFile :: string
  Extensions :: "string list"
  ExcludeHidden :: bool
  MaxFileSize :: int64
  MinFileSize :: int64
  ExcludePattern :: string
  IncludePattern :: string
  OutputFormat :: string
  Compress :: bool
  Parallel :: int
  Quiet :: bool
  Verbose :: bool
  DryRun :: bool

record FileInfo =
  Path :: string
  Size :: int64
  Modified :: string
  Content :: string
  RelativePath :: string

record Stats =
  FilesProcessed :: int64
  Directories :: int64
  TotalBytes :: int64
  Duration :: float64
  OutputSize :: int64

text \<open>
  What \<open>os.FileInfo\<close> gives the program: \<open>Name()\<close>, \<open>Size()\<close>, \<open>IsDir()\<close> and the
  modification time already formatted with the layout \<open>2006-01-02 15:04:05\<close>.
\<close>

record osFileInfo =
  fiName :: string
  fiSize :: int64
  fiIsDir :: bool
  fiModTime :: string

text \<open>A compiled \<open>*regexp.Regexp\<close> is used through \<open>MatchString\<close> only; \<open>nil\<close> is \<open>None\<close>.\<close>

type_synonym regexp = "string \<Rightarrow> bool"

text \<open>
  Library code the program calls and the repository does not contain, taken as parameters:
  \<open>filepath.Rel\<close> (\<open>None\<close> is its error), the Unicode halves of \<open>strings.EqualFold\<close> and
  \<open>strings.ToLower\<close> (reached only when a byte \<open>\<ge> 0x80\<close> is present),
  \<open>strings.TrimSpace\<close>, and \<open>regexp.Compile\<close> (\<open>None\<close> is a compile error).
\<close>

record lib =
  Rel :: "string \<Rightarrow> string \<Rightarrow> string option"
  foldUnicode :: "string \<Rightarrow> string \<Rightarrow> bool"
  lowerUnicode :: "string \<Rightarrow> string"
  TrimSpace :: "string \<Rightarrow> string"
  Compile :: "string \<Rightarrow> regexp option"

section \<open>String helpers of the standard library\<close>

definition byte :: "char \<Rightarrow> nat" where
  "byte c = of_char c"

definition HasPrefix :: "string \<Rightarrow> string \<Rightarrow> bool" where
  "HasPrefix s p = (length p \<le> length s \<and> take (length p) s = p)"

text \<open>
  \<open>filepath.Ext\<close>: scan from the end while no separator is met; the first dot found starts
  the extension. \<open>ExtScan\<close> walks the reversed path and rebuilds the suffix read so far.
\<close>

fun ExtScan :: "string \<Rightarrow> string \<Rightarrow> string" where
  "ExtScan [] acc = []"
| "ExtScan (c # rs) acc =
     (if c = CHR ''/'' then []
      else if c = CHR ''.'' then c # acc
      else ExtScan rs (c # acc))"

definition Ext :: "string \<Rightarrow> string" where
  "Ext path = ExtScan (rev path) []"

text \<open>
  \<open>strings.EqualFold\<close>: the ASCII loop of the library; at the first position where either
  byte is \<open>\<ge> 0x80\<close> the rest of both strings goes to the Unicode comparison.
\<close>

fun EqualFold :: "lib \<Rightarrow> string \<Rightarrow> string \<Rightarrow> bool" where
  "EqualFold L [] [] = True"
| "EqualFold L [] (b # t) = False"
| "EqualFold L (a # s) [] = False"
| "EqualFold L (a # s) (b # t) =
     (if 128 \<le> byte a \<or> 128 \<le> byte b then foldUnicode L (a # s) (b # t)
      else if a = b then EqualFold L s t
      else (let sr = min (byte a) (byte b); tr = max (byte a) (byte b)
            in if 65 \<le> sr \<and> sr \<le> 90 \<and> tr = sr + 32 then EqualFold L s t else False))"

definition lowerASCII :: "char \<Rightarrow> char" where
  "lowerASCII c = (if 65 \<le> byte c \<and> byte c \<le> 90 then char_of (byte c + 32) else c)"

definition isASCII :: "string \<Rightarrow> bool" where
  "isASCII s = list_all (\<lambda>c. byte c < 128) s"

definition ToLower :: "lib \<Rightarrow> string \<Rightarrow> string" where
  "ToLower L s = (if isASCII s then map lowerASCII s else lowerUnicode L s)"

section \<open>The predicate filter\<close>

definition isHidden :: "string \<Rightarrow> bool" where
  "isHidden name = (HasPrefix name ''.'' \<or> (HasPrefix name ''~'' \<and> 1 < length name))"

text \<open>
  \<open>shouldProcessFile\<close>, branch for branch. \<open>relPath, _ := filepath.Rel(...)\<close> drops the
  error, which leaves the empty string.
\<close>

definition relPathOf :: "lib \<Rightarrow> string \<Rightarrow> string \<Rightarrow> string" where
  "relPathOf L base path = (case Rel L base path of None \<Rightarrow> [] | Some r \<Rightarrow> r)"

definition extensionFound :: "lib \<Rightarrow> string \<Rightarrow> string list \<Rightarrow> bool" where
  "extensionFound L path exts = list_ex (\<lambda>allowedExt. EqualFold L (Ext path) allowedExt) exts"

definition shouldProcessFile ::
  "lib \<Rightarrow> string \<Rightarrow> osFileInfo \<Rightarrow> Config \<Rightarrow> regexp option \<Rightarrow> regexp option \<Rightarrow> bool" where
  "shouldProcessFile L path info config excludeRegex includeRegex =
     (if ExcludeHidden config \<and> isHidden (fiName info) then False
      else if 0 < sint (MaxFileSize config) \<and> sint (MaxFileSize config) < sint (fiSize info)
        then False
      else if 0 < sint (MinFileSize config) \<and> sint (fiSize info) < sint (MinFileSize config)
        then False
      else if 0 < length (Extensions config) \<and> \<not> extensionFound L path (Extensions config)
        then False
      else (let relPath = relPathOf L (InputDir config) path in
        if (case excludeRegex of None \<Rightarrow> False | Some re \<Rightarrow> re relPath) then False
        else if (case includeRegex of None \<Rightarrow> False | Some re \<Rightarrow> \<not> re relPath) then False
        else True))"

subsection \<open>The rules as the specification lists them\<close>

text \<open>
  The specification's reading of the filter, for comparison with the code: six rules in a
  fixed order, the first one that rejects decides.
\<close>

datatype rule = HiddenRule | MaxSizeRule | MinSizeRule | ExtensionRule | ExcludeRule | IncludeRule

definition ruleOrder :: "rule list" where
  "ruleOrder = [HiddenRule, MaxSizeRule, MinSizeRule, ExtensionRule, ExcludeRule, IncludeRule]"

fun specRejects ::
  "lib \<Rightarrow> string \<Rightarrow> osFileInfo \<Rightarrow> Config \<Rightarrow> regexp option \<Rightarrow> regexp option \<Rightarrow> rule \<Rightarrow> bool" where
  "specRejects L path info config ex inc HiddenRule =
     (ExcludeHidden config \<and>
      (case fiName info of [] \<Rightarrow> False
       | c # rest \<Rightarrow> c = CHR ''.'' \<or> (c = CHR ''~'' \<and> rest \<noteq> [])))"
| "specRejects L path info config ex inc MaxSizeRule =
     (0 < sint (MaxFileSize config) \<and> sint (MaxFileSize config) < sint (fiSize info))"
| "specRejects L path info config ex inc MinSizeRule =
     (0 < sint (MinFileSize config) \<and> sint (fiSize info) < sint (MinFileSize config))"
| "specRejects L path info config ex inc ExtensionRule =
     (Extensions config \<noteq> [] \<and> (\<forall>e \<in> set (Extensions config). \<not> EqualFold L (Ext path) e))"
| "specRejects L path info config ex inc ExcludeRule =
     (case ex of None \<Rightarrow> False | Some re \<Rightarrow> re (relPathOf L (InputDir config) path))"
| "specRejects L path info config ex inc IncludeRule =
     (case inc of None \<Rightarrow> False | Some re \<Rightarrow> \<not> re (relPathOf L (InputDir config) path))"

definition firstRejecting ::
  "lib \<Rightarrow> string \<Rightarrow> osFileInfo \<Rightarrow> Config \<Rightarrow> regexp option \<Rightarrow> regexp option \<Rightarrow> rule option" where
  "firstRejecting L path info config ex inc = find (specRejects L path info config ex inc) ruleOrder"

section \<open>The file system and the ingestor\<close>

text \<open>
  The file system as the program observes it. \<open>Stat\<close> and \<open>ReadFile\<close> are \<open>os.Stat\<close> and
  \<open>os.ReadFile\<close> (\<open>None\<close> is an error), \<open>Create\<close> tells whether \<open>os.Create\<close> succeeds,
  and \<open>Tree\<close> is what \<open>filepath.Walk\<close> sees below a root: \<open>NoStat name\<close> is an entry
  whose \<open>Lstat\<close> fails; \<open>Node info names\<close> is an entry with its \<open>Lstat\<close> result and,
  for a directory, the entries behind \<open>readDirNames\<close> in the sorted order the library
  returns (\<open>None\<close> when reading the directory fails). The clock is part of it: \<open>Now\<close> and
  \<open>NowRFC3339\<close> are \<open>time.Now()\<close> in the two layouts the writers use, \<open>Elapsed\<close> is
  \<open>time.Since(startTime).Seconds()\<close>.
\<close>

datatype fsnode = NoStat string | Node osFileInfo "fsnode list option"

record OS =
  Stat :: "string \<Rightarrow> osFileInfo option"
  ReadFile :: "string \<Rightarrow> string option"
  Create :: "string \<Rightarrow> bool"
  Tree :: "string \<Rightarrow> fsnode"
  Now :: string
  NowRFC3339 :: string
  Elapsed :: float64

datatype error =
    ErrStat string
  | ErrNotDir string
  | ErrExtension string
  | ErrPattern string
  | ErrLstat string
  | ErrReadDir string
  | ErrRead string
  | ErrCreate string
  | ErrEncode

definition getRelativePath :: "lib \<Rightarrow> string \<Rightarrow> string \<Rightarrow> string" where
  "getRelativePath L path baseDir = (case Rel L baseDir path of None \<Rightarrow> path | Some relPath \<Rightarrow> relPath)"

text \<open>
  \<open>processSingleFile\<close> returns the record built so far together with the error, as the Go
  function does.
\<close>

definition processSingleFile :: "lib \<Rightarrow> OS \<Rightarrow> string \<Rightarrow> string \<Rightarrow> FileInfo \<times> error option" where
  "processSingleFile L os path baseDir =
     (let info = \<lparr>Path = path, Size = 0, Modified = [], Content = [],
                  RelativePath = getRelativePath L path baseDir\<rparr>
      in case Stat os path of
           None \<Rightarrow> (info, Some (ErrStat path))
         | Some fileInfo \<Rightarrow>
             (let info = info\<lparr>Size := fiSize fileInfo, Modified := fiModTime fileInfo\<rparr>
              in case ReadFile os path of
                   None \<Rightarrow> (info, Some (ErrRead path))
                 | Some content \<Rightarrow> (info\<lparr>Content := content\<rparr>, None)))"

section \<open>Sequential ingestion\<close>

text \<open>
  The loop of \<open>processFilesSequential\<close> with its two accumulators, the result slice and
  the statistics behind the pointer. Messages printed to the terminal are not part of the
  model.
\<close>

fun seqLoop :: "lib \<Rightarrow> OS \<Rightarrow> string \<Rightarrow> string list \<Rightarrow> FileInfo list \<Rightarrow> Stats \<Rightarrow> FileInfo list \<times> Stats" where
  "seqLoop L os baseDir [] fileInfos stats = (fileInfos, stats)"
| "seqLoop L os baseDir (path # rest) fileInfos stats =
     (case processSingleFile L os path baseDir of
        (info, Some err) \<Rightarrow> seqLoop L os baseDir rest fileInfos stats
      | (info, None) \<Rightarrow>
          seqLoop L os baseDir rest (fileInfos @ [info])
            (stats\<lparr>FilesProcessed := FilesProcessed stats + 1,
                   TotalBytes := TotalBytes stats + Size info\<rparr>))"

definition processFilesSequential ::
  "lib \<Rightarrow> OS \<Rightarrow> string list \<Rightarrow> string \<Rightarrow> Stats \<Rightarrow> FileInfo list \<times> Stats" where
  "processFilesSequential L os paths baseDir stats = seqLoop L os baseDir paths [] stats"

section \<open>Parallel ingestion\<close>

text \<open>
  \<open>processFilesParallel\<close> as an interleaving of its goroutines. The main goroutine
  sends the paths into \<open>fileChan\<close> (buffered to \<open>len(paths)\<close>, so a send never blocks) and
  closes it; each worker repeats: receive a path, run \<open>processSingleFile\<close>, push the record to
  \<open>resultChan\<close> or the error to \<open>errorChan\<close>; a worker leaves its \<open>range\<close> loop when the channel
  is closed and empty. \<open>wg.Wait()\<close> returns once every worker has left.
\<close>

datatype worker = Idle | Holding string | Exited

record pstate =
  toSend :: "string list"
  fileChan :: "string list"
  chanClosed :: bool
  workersOf :: "worker list"
  resultChan :: "FileInfo list"
  errorChan :: "(string \<times> error) list"

definition pinit :: "string list \<Rightarrow> int \<Rightarrow> pstate" where
  "pinit paths workers =
     \<lparr>toSend = paths, fileChan = [], chanClosed = False,
      workersOf = replicate (nat workers) Idle, resultChan = [], errorChan = []\<rparr>"

inductive pstep :: "lib \<Rightarrow> OS \<Rightarrow> string \<Rightarrow> pstate \<Rightarrow> pstate \<Rightarrow> bool"
  for L :: lib and os :: OS and baseDir :: string where
  send: "toSend s = path # rest \<Longrightarrow>
         pstep L os baseDir s (s\<lparr>toSend := rest, fileChan := fileChan s @ [path]\<rparr>)"
| close: "toSend s = [] \<Longrightarrow> \<not> chanClosed s \<Longrightarrow>
         pstep L os baseDir s (s\<lparr>chanClosed := True\<rparr>)"
| receive: "i < length (workersOf s) \<Longrightarrow> workersOf s ! i = Idle \<Longrightarrow> fileChan s = path # rest \<Longrightarrow>
         pstep L os baseDir s (s\<lparr>fileChan := rest, workersOf := (workersOf s)[i := Holding path]\<rparr>)"
| result: "i < length (workersOf s) \<Longrightarrow> workersOf s ! i = Holding path \<Longrightarrow>
         processSingleFile L os path baseDir = (info, None) \<Longrightarrow>
         pstep L os baseDir s
           (s\<lparr>resultChan := resultChan s @ [info], workersOf := (workersOf s)[i := Idle]\<rparr>)"
| failure: "i < length (workersOf s) \<Longrightarrow> workersOf s ! i = Holding path \<Longrightarrow>
         processSingleFile L os path baseDir = (info, Some err) \<Longrightarrow>
         pstep L os baseDir s
           (s\<lparr>errorChan := errorChan s @ [(path, err)], workersOf := (workersOf s)[i := Idle]\<rparr>)"
| leave: "i < length (workersOf s) \<Longrightarrow> workersOf s ! i = Idle \<Longrightarrow> fileChan s = [] \<Longrightarrow>
         chanClosed s \<Longrightarrow>
         pstep L os baseDir s (s\<lparr>workersOf := (workersOf s)[i := Exited]\<rparr>)"

definition pfinal :: "pstate \<Rightarrow> bool" where
  "pfinal s = (chanClosed s \<and> list_all (\<lambda>w. w = Exited) (workersOf s))"

text \<open>The collecting loop over the closed \<open>resultChan\<close>.\<close>

fun collect :: "FileInfo list \<Rightarrow> FileInfo list \<Rightarrow> Stats \<Rightarrow> FileInfo list \<times> Stats" where
  "collect [] fileInfos stats = (fileInfos, stats)"
| "collect (info # rest) fileInfos stats =
     collect rest (fileInfos @ [info])
       (stats\<lparr>FilesProcessed := FilesProcessed stats + 1,
              TotalBytes := TotalBytes stats + Size info\<rparr>)"

definition processFilesParallel ::
  "lib \<Rightarrow> OS \<Rightarrow> string list \<Rightarrow> string \<Rightarrow> int \<Rightarrow> Stats \<Rightarrow> FileInfo list \<times> Stats \<Rightarrow> bool" where
  "processFilesParallel L os paths baseDir workers stats res =
     (\<exists>s. (pstep L os baseDir)\<^sup>*\<^sup>* (pinit paths workers) s \<and> pfinal s \<and>
          res = collect (resultChan s) [] stats)"

section \<open>Paths\<close>

text \<open>
  \<open>filepath.Clean\<close>, \<open>filepath.Join\<close> and \<open>filepath.Dir\<close> on a Unix target, and the
  \<open>basename\<close> with which \<open>os.Lstat\<close> names its result. \<open>Clean\<close> works on the elements
  between separators: empty and \<open>.\<close> elements vanish, \<open>..\<close> removes the element before it, or
  stays when the path is not rooted and nothing is left to remove.
\<close>

fun splitOn :: "char \<Rightarrow> string \<Rightarrow> string list" where
  "splitOn sep [] = [[]]"
| "splitOn sep (c # cs) =
     (if c = sep then [] # splitOn sep cs
      else (case splitOn sep cs of [] \<Rightarrow> [[c]] | w # ws \<Rightarrow> (c # w) # ws))"

fun joinWith :: "string \<Rightarrow> string list \<Rightarrow> string" where
  "joinWith sep [] = []"
| "joinWith sep [w] = w"
| "joinWith sep (w # v # ws) = w @ sep @ joinWith sep (v # ws)"

fun cleanElems :: "bool \<Rightarrow> string list \<Rightarrow> string list \<Rightarrow> string list" where
  "cleanElems rooted [] out = rev out"
| "cleanElems rooted (e # es) out =
     (if e = [] \<or> e = ''.'' then cleanElems rooted es out
      else if e = ''..'' then
        (case out of
           t # ts \<Rightarrow> if t \<noteq> ''..'' then cleanElems rooted es ts
                     else cleanElems rooted es (e # out)
         | [] \<Rightarrow> if rooted then cleanElems rooted es out else cleanElems rooted es (e # out))
      else cleanElems rooted es (e # out))"

definition Clean :: "string \<Rightarrow> string" where
  "Clean path =
     (if path = [] then ''.''
      else (let rooted = (hd path = CHR ''/'');
                out = (if rooted then ''/'' else []) @ joinWith ''/'' (cleanElems rooted (splitOn CHR ''/'' path) [])
            in if out = [] then ''.'' else out))"

definition Join :: "string \<Rightarrow> string \<Rightarrow> string" where
  "Join a b =
     (if a \<noteq> [] then Clean (a @ ''/'' @ b)
      else if b \<noteq> [] then Clean b
      else [])"

definition Dir :: "string \<Rightarrow> string" where
  "Dir path = Clean (rev (dropWhile (\<lambda>c. c \<noteq> CHR ''/'') (rev path)))"

fun stripSlashes :: "string \<Rightarrow> string" where
  "stripSlashes [] = []"
| "stripSlashes [c] = [c]"
| "stripSlashes (c # d # r) = (if c = CHR ''/'' then stripSlashes (d # r) else c # d # r)"

definition basename :: "string \<Rightarrow> string" where
  "basename name =
     (let n = rev (stripSlashes (rev name))
      in if length n \<le> 1 then n else rev (takeWhile (\<lambda>c. c \<noteq> CHR ''/'') (rev n)))"

section \<open>The discovery walker\<close>

text \<open>
  The callback \<open>main\<close> hands to \<open>filepath.Walk\<close>. Its state is the pair of captured
  variables it updates, \<open>filePaths\<close> and \<open>stats\<close>. It returns \<open>nil\<close> (\<open>None\<close>) or
  \<open>filepath.SkipDir\<close>; a call with neither \<open>info\<close> nor \<open>err\<close>, which \<open>Walk\<close> never makes,
  would dereference \<open>nil\<close>.
\<close>

datatype walkErr = SkipDir | NilInfo

definition walkFn ::
  "lib \<Rightarrow> Config \<Rightarrow> regexp option \<Rightarrow> regexp option \<Rightarrow>
   string \<Rightarrow> osFileInfo option \<Rightarrow> error option \<Rightarrow> string list \<times> Stats \<Rightarrow>
   walkErr option \<times> (string list \<times> Stats)" where
  "walkFn L config excludeRegex includeRegex path info err st =
     (case st of (filePaths, stats) \<Rightarrow>
        if err \<noteq> None then (None, st)
        else (case info of
            None \<Rightarrow> (Some NilInfo, st)
          | Some info \<Rightarrow>
              if fiIsDir info
              then (let stats = stats\<lparr>Directories := Directories stats + 1\<rparr>
                    in if ExcludeHidden config \<and> isHidden (fiName info)
                       then (Some SkipDir, (filePaths, stats))
                       else (None, (filePaths, stats)))
              else if \<not> shouldProcessFile L path info config excludeRegex includeRegex
                then (None, st)
                else (None, (filePaths @ [path], stats))))"

text \<open>
  \<open>filepath.Walk\<close> and its recursive \<open>walk\<close>, for any callback \<open>fn\<close> over any state. A
  directory's names are read first and the callback runs once, with the read error if there
  was one; the walk descends only when both the read and the callback gave no error.
\<close>

fun walk ::
    "(string \<Rightarrow> osFileInfo option \<Rightarrow> error option \<Rightarrow> 's \<Rightarrow> walkErr option \<times> 's) \<Rightarrow>
     string \<Rightarrow> fsnode \<Rightarrow> 's \<Rightarrow> walkErr option \<times> 's"
  and walkNames ::
    "(string \<Rightarrow> osFileInfo option \<Rightarrow> error option \<Rightarrow> 's \<Rightarrow> walkErr option \<times> 's) \<Rightarrow>
     string \<Rightarrow> fsnode list \<Rightarrow> 's \<Rightarrow> walkErr option \<times> 's" where
  "walk fn path (NoStat name) st = fn path None (Some (ErrLstat path)) st"
| "walk fn path (Node info None) st =
     (if \<not> fiIsDir info then fn path (Some info) None st
      else fn path (Some info) (Some (ErrReadDir path)) st)"
| "walk fn path (Node info (Some names)) st =
     (if \<not> fiIsDir info then fn path (Some info) None st
      else (case fn path (Some info) None st of
              (Some err1, st1) \<Rightarrow> (Some err1, st1)
            | (None, st1) \<Rightarrow> walkNames fn path names st1))"
| "walkNames fn path [] st = (None, st)"
| "walkNames fn path (NoStat name # rest) st =
     (case fn (Join path name) None (Some (ErrLstat (Join path name))) st of
        (Some err, st1) \<Rightarrow> if err \<noteq> SkipDir then (Some err, st1) else walkNames fn path rest st1
      | (None, st1) \<Rightarrow> walkNames fn path rest st1)"
| "walkNames fn path (Node info names # rest) st =
     (case walk fn (Join path (fiName info)) (Node info names) st of
        (Some err, st1) \<Rightarrow>
          if \<not> fiIsDir info \<or> err \<noteq> SkipDir then (Some err, st1)
          else walkNames fn path rest st1
      | (None, st1) \<Rightarrow> walkNames fn path rest st1)"

text \<open>\<open>os.Lstat\<close> names its result after the last element of the path it was given.\<close>

fun Lstat :: "OS \<Rightarrow> string \<Rightarrow> fsnode" where
  "Lstat os root =
     (case Tree os root of
        NoStat name \<Rightarrow> NoStat name
      | Node info names \<Rightarrow> Node (info\<lparr>fiName := basename root\<rparr>) names)"

definition Walk ::
  "OS \<Rightarrow> string \<Rightarrow>
   (string \<Rightarrow> osFileInfo option \<Rightarrow> error option \<Rightarrow> 's \<Rightarrow> walkErr option \<times> 's) \<Rightarrow> 's \<Rightarrow>
   walkErr option \<times> 's" where
  "Walk os root fn st =
     (case walk fn root (Lstat os root) st of
        (Some SkipDir, st1) \<Rightarrow> (None, st1)
      | r \<Rightarrow> r)"

section \<open>Formatting\<close>

text \<open>\<open>%d\<close> of an integer.\<close>

definition digit :: "nat \<Rightarrow> char" where
  "digit d = char_of (48 + d)"

function natStr :: "nat \<Rightarrow> string" where
  "natStr n = (if n < 10 then [digit n] else natStr (n div 10) @ [digit (n mod 10)])"
  by pat_completeness auto
termination
  by (relation "measure id") auto

definition intStr :: "int \<Rightarrow> string" where
  "intStr i = (if i < 0 then ''-'' @ natStr (nat (- i)) else natStr (nat i))"

text \<open>
  \<open>%.pf\<close> of a float: the exact value \<open>m / 2 ^ k\<close> rounded to \<open>p\<close> decimals, an exact tie
  going to the even neighbour, as \<open>strconv\<close> does.
\<close>

definition roundHalfEven :: "nat \<Rightarrow> nat \<Rightarrow> nat" where
  "roundHalfEven a d =
     (let q = a div d; r = a mod d
      in if d < 2 * r \<or> (2 * r = d \<and> odd q) then q + 1 else q)"

definition padZeros :: "nat \<Rightarrow> string \<Rightarrow> string" where
  "padZeros p s = replicate (p - length s) CHR ''0'' @ s"

fun fmtFloat :: "nat \<Rightarrow> float64 \<Rightarrow> string" where
  "fmtFloat p (F64 m k) =
     (let q = roundHalfEven (nat \<bar>m\<bar> * 10 ^ p) (2 ^ k)
      in (if m < 0 then ''-'' else []) @ natStr (q div 10 ^ p) @
         (if p = 0 then [] else ''.'' @ padZeros p (natStr (q mod 10 ^ p))))"

text \<open>
  \<open>float64(n)\<close> for an integer: exact below \<open>2 ^ 53\<close>, else rounded to 53 significant bits,
  ties to even.
\<close>

function excessBits :: "nat \<Rightarrow> nat" where
  "excessBits a = (if a < 2 ^ 53 then 0 else Suc (excessBits (a div 2)))"
  by pat_completeness auto
termination
  by (relation "measure id") auto

definition toFloat64 :: "int \<Rightarrow> float64" where
  "toFloat64 n =
     (let e = excessBits (nat \<bar>n\<bar>)
      in F64 (sgn n * int (roundHalfEven (nat \<bar>n\<bar>) (2 ^ e) * 2 ^ e)) 0)"

text \<open>
  The quotient \<open>x / float64(d)\<close> where \<open>d\<close> is a power of two: only the exponent moves,
  so the quotient is exact.
\<close>

function pow2Exp :: "int \<Rightarrow> nat" where
  "pow2Exp d = (if d \<le> 1 then 0 else Suc (pow2Exp (d div 2)))"
  by pat_completeness auto
termination
  by (relation "measure nat") auto

fun quoPow2 :: "float64 \<Rightarrow> int \<Rightarrow> float64" where
  "quoPow2 (F64 m k) d = F64 m (k + pow2Exp d)"

text \<open>\<open>formatBytes\<close>: the loop \<open>for n := bytes / unit; n >= unit; n /= unit\<close>.\<close>

function fbLoop :: "int \<Rightarrow> int \<Rightarrow> nat \<Rightarrow> int \<times> nat" where
  "fbLoop n div' exp = (if 1024 \<le> n then fbLoop (n div 1024) (div' * 1024) (Suc exp) else (div', exp))"
  by pat_completeness auto
termination
  by (relation "measure (\<lambda>(n, d, e). nat n)") auto

definition formatBytes :: "int64 \<Rightarrow> string" where
  "formatBytes bytes =
     (if sint bytes < 1024 then intStr (sint bytes) @ '' B''
      else (case fbLoop (sint bytes div 1024) 1024 0 of
              (div', exp) \<Rightarrow>
                fmtFloat 1 (quoPow2 (toFloat64 (sint bytes)) div') @ '' '' @ [''KMGTPE'' ! exp] @ ''B''))"

section \<open>The serializers\<close>

text \<open>
  A writer is modelled by the bytes handed to it, in order; writes are taken to succeed, so
  \<open>WriteString\<close> returns the length of its argument. Each serializer returns those bytes,
  the size it reports and its error.
\<close>

definition lenBytes :: "string \<Rightarrow> int64" where
  "lenBytes s = word_of_nat (length s)"

definition textHeader :: "OS \<Rightarrow> Stats \<Rightarrow> string" where
  "textHeader os stats =
     ''Pecel Output\<newline>'' @
     ''Generated: '' @ Now os @ ''\<newline>'' @
     ''Files: '' @ intStr (sint (FilesProcessed stats)) @ '' | Directories: '' @
       intStr (sint (Directories stats)) @ '' | Total Size: '' @ formatBytes (TotalBytes stats) @
       ''\<newline>\<newline>''"

definition textSection :: "FileInfo \<Rightarrow> string" where
  "textSection info =
     ''\<newline>'' @ replicate 80 CHR ''='' @ ''\<newline>'' @ RelativePath info @ ''\<newline>'' @
     ''Size: '' @ formatBytes (Size info) @ '' | Modified: '' @ Modified info @ ''\<newline>'' @
     replicate 80 CHR ''-'' @ ''\<newline>'' @
     Content info @ ''\<newline>'' @
     replicate 80 CHR ''='' @ ''\<newline>''"

definition textFooter :: "Stats \<Rightarrow> int64 \<Rightarrow> string" where
  "textFooter stats totalBytes =
     ''\<newline>\<newline>=== SUMMARY ===\<newline>'' @
     ''Files processed: '' @ intStr (sint (FilesProcessed stats)) @ ''\<newline>'' @
     ''Directories scanned: '' @ intStr (sint (Directories stats)) @ ''\<newline>'' @
     ''Total input size: '' @ formatBytes (TotalBytes stats) @ ''\<newline>'' @
     ''Output size: '' @ formatBytes totalBytes @ ''\<newline>'' @
     ''Processing time: '' @ fmtFloat 2 (Duration stats) @ '' seconds\<newline>''"

fun textSections :: "FileInfo list \<Rightarrow> string \<times> int64 \<Rightarrow> string \<times> int64" where
  "textSections [] acc = acc"
| "textSections (info # rest) (out, totalBytes) =
     textSections rest (out @ textSection info, totalBytes + lenBytes (textSection info))"

definition writeTextOutput :: "OS \<Rightarrow> FileInfo list \<Rightarrow> Stats \<Rightarrow> string \<times> int64 \<times> error option" where
  "writeTextOutput os fileInfos stats =
     (let header = textHeader os stats;
          (out, totalBytes) = textSections fileInfos (header, 0 + lenBytes header);
          footer = textFooter stats totalBytes
      in (out @ footer, totalBytes + lenBytes footer, None))"

definition mdHeader :: "OS \<Rightarrow> Stats \<Rightarrow> string" where
  "mdHeader os stats =
     ''# Pecel Output\<newline>\<newline>'' @
     ''**Generated**: '' @ Now os @ ''  \<newline>'' @
     ''**Files**: '' @ intStr (sint (FilesProcessed stats)) @ '' | **Directories**: '' @
       intStr (sint (Directories stats)) @ '' | **Total Size**: '' @
       formatBytes (TotalBytes stats) @ ''  \<newline>\<newline>''"

definition mdSection :: "nat \<Rightarrow> FileInfo \<Rightarrow> string" where
  "mdSection i info =
     ''## File '' @ natStr (i + 1) @ '': `'' @ RelativePath info @ ''`\<newline>\<newline>'' @
     ''**Size**: '' @ formatBytes (Size info) @ ''  \<newline>'' @
     ''**Modified**: '' @ Modified info @ ''  \<newline>\<newline>'' @
     ''### Content\<newline>```\<newline>'' @
     Content info @ ''\<newline>```\<newline>\<newline>'' @
     ''---\<newline>\<newline>''"

definition mdFooter :: "Stats \<Rightarrow> string" where
  "mdFooter stats =
     ''## Summary\<newline>\<newline>'' @
     ''- **Files processed**: '' @ intStr (sint (FilesProcessed stats)) @ ''\<newline>'' @
     ''- **Directories scanned**: '' @ intStr (sint (Directories stats)) @ ''\<newline>'' @
     ''- **Total input size**: '' @ formatBytes (TotalBytes stats) @ ''\<newline>'' @
     ''- **Processing time**: '' @ fmtFloat 2 (Duration stats) @ '' seconds\<newline>''"

fun mdSections :: "nat \<Rightarrow> FileInfo list \<Rightarrow> string \<times> int64 \<Rightarrow> string \<times> int64" where
  "mdSections i [] acc = acc"
| "mdSections i (info # rest) (out, totalBytes) =
     mdSections (i + 1) rest (out @ mdSection i info, totalBytes + lenBytes (mdSection i info))"

definition writeMarkdownOutput :: "OS \<Rightarrow> FileInfo list \<Rightarrow> Stats \<Rightarrow> string \<times> int64 \<times> error option" where
  "writeMarkdownOutput os fileInfos stats =
     (let header = mdHeader os stats;
          (out, totalBytes) = mdSections 0 fileInfos (header, 0 + lenBytes header);
          footer = mdFooter stats
      in (out @ footer, totalBytes + lenBytes footer, None))"

subsection \<open>JSON and XML\<close>

text \<open>
  \<open>encoding/json\<close> coerces every string to valid UTF-8 while marshalling: a byte that
  starts no well-formed sequence becomes U+FFFD (\<open>EF BF BD\<close>). \<open>runeLen\<close> is the width
  \<open>utf8.DecodeRuneInString\<close> reports for a well-formed sequence at the head of the string,
  and 0 where it reports \<open>RuneError\<close> with width 1.
\<close>

definition cont :: "char \<Rightarrow> bool" where
  "cont c = (128 \<le> byte c \<and> byte c \<le> 191)"

fun runeLen :: "string \<Rightarrow> nat" where
  "runeLen [] = 0"
| "runeLen (a # s) =
     (let x = byte a in
      if x < 128 then 1
      else if 194 \<le> x \<and> x \<le> 223 then
        (case s of b # _ \<Rightarrow> if cont b then 2 else 0 | _ \<Rightarrow> 0)
      else if 224 \<le> x \<and> x \<le> 239 then
        (case s of b # c # _ \<Rightarrow>
           if (if x = 224 then 160 \<le> byte b \<and> byte b \<le> 191
               else if x = 237 then 128 \<le> byte b \<and> byte b \<le> 159
               else cont b) \<and> cont c
           then 3 else 0
         | _ \<Rightarrow> 0)
      else if 240 \<le> x \<and> x \<le> 244 then
        (case s of b # c # d # _ \<Rightarrow>
           if (if x = 240 then 144 \<le> byte b \<and> byte b \<le> 191
               else if x = 244 then 128 \<le> byte b \<and> byte b \<le> 143
               else cont b) \<and> cont c \<and> cont d
           then 4 else 0
         | _ \<Rightarrow> 0)
      else 0)"

definition replacementChar :: string where
  "replacementChar = [char_of (239::nat), char_of (191::nat), char_of (189::nat)]"

function toValidUTF8 :: "string \<Rightarrow> string" where
  "toValidUTF8 s =
     (if s = [] then []
      else if runeLen s = 0 then replacementChar @ toValidUTF8 (tl s)
      else take (runeLen s) s @ toValidUTF8 (drop (runeLen s) s))"
  by pat_completeness auto
termination
  by (relation "measure length") (auto simp: neq_Nil_conv)

function validUTF8 :: "string \<Rightarrow> bool" where
  "validUTF8 s =
     (if s = [] then True
      else if runeLen s = 0 then False
      else validUTF8 (drop (runeLen s) s))"
  by pat_completeness auto
termination
  by (relation "measure length") (auto simp: neq_Nil_conv)

declare toValidUTF8.simps [simp del] validUTF8.simps [simp del]

text \<open>
  A JSON document as a value. The text layer of the encoder (escapes, indentation) is
  library code: \<open>encodeIndent\<close> is \<open>Encoder.Encode\<close> after \<open>SetIndent\<close>, \<open>marshal\<close> is
  \<open>json.Marshal\<close>, each \<open>None\<close> on error. What the encoder does to the values themselves is
  modelled: the UTF-8 coercion of strings, \<open>omitempty\<close>, a \<open>nil\<close> slice as \<open>null\<close>, and map keys
  in sorted order.
\<close>

datatype json =
    JNull
  | JInt int
  | JFloat float64
  | JString string
  | JArray "json list"
  | JObject "(string \<times> json) list"

definition jsonString :: "string \<Rightarrow> json" where
  "jsonString s = JString (toValidUTF8 s)"

definition fileInfoJSON :: "FileInfo \<Rightarrow> json" where
  "fileInfoJSON info =
     JObject
       ([(''path'', jsonString (Path info)),
         (''size'', JInt (sint (Size info))),
         (''modified'', jsonString (Modified info))] @
        (if Content info = [] then [] else [(''content'', jsonString (Content info))]) @
        [(''relative_path'', jsonString (RelativePath info))])"

definition version :: string where
  "version = ''0.1.0''"

definition jsonOutput :: "OS \<Rightarrow> FileInfo list \<Rightarrow> Stats \<Rightarrow> json" where
  "jsonOutput os fileInfos stats =
     JObject
       [(''files'', if fileInfos = [] then JNull else JArray (map fileInfoJSON fileInfos)),
        (''metadata'',
           JObject
             [(''directories'', JInt (sint (Directories stats))),
              (''duration_secs'', JFloat (Duration stats)),
              (''files_count'', JInt (sint (FilesProcessed stats))),
              (''generated'', jsonString (NowRFC3339 os)),
              (''total_size'', JInt (sint (TotalBytes stats))),
              (''version'', jsonString version)])]"

record XMLOutput =
  xVersion :: string
  xGenerated :: string
  xFiles :: int64
  xDirectories :: int64
  xTotalSize :: int64
  xDuration :: float64
  xFileList :: "FileInfo list"

record encoders =
  encodeIndent :: "json \<Rightarrow> string option"
  marshal :: "json \<Rightarrow> string option"
  xmlEncodeIndent :: "XMLOutput \<Rightarrow> string option"
  xmlMarshalIndent :: "XMLOutput \<Rightarrow> string option"

definition writeJSONOutput ::
  "encoders \<Rightarrow> OS \<Rightarrow> FileInfo list \<Rightarrow> Stats \<Rightarrow> string \<times> int64 \<times> error option" where
  "writeJSONOutput E os fileInfos stats =
     (let output = jsonOutput os fileInfos stats
      in case encodeIndent E output of
           None \<Rightarrow> ([], 0, Some ErrEncode)
         | Some text \<Rightarrow>
             (text, lenBytes (case marshal E output of None \<Rightarrow> [] | Some data \<Rightarrow> data), None))"

definition xmlHeader :: string where
  "xmlHeader = ''<?xml version=\"1.0\" encoding=\"UTF-8\"?>\<newline>''"

definition writeXMLOutput ::
  "encoders \<Rightarrow> OS \<Rightarrow> FileInfo list \<Rightarrow> Stats \<Rightarrow> string \<times> int64 \<times> error option" where
  "writeXMLOutput E os fileInfos stats =
     (let output = \<lparr>xVersion = version, xGenerated = NowRFC3339 os,
                    xFiles = FilesProcessed stats, xDirectories = Directories stats,
                    xTotalSize = TotalBytes stats, xDuration = Duration stats,
                    xFileList = fileInfos\<rparr>
      in case xmlEncodeIndent E output of
           None \<Rightarrow> (xmlHeader, 0, Some ErrEncode)
         | Some text \<Rightarrow>
             (xmlHeader @ text,
              lenBytes (case xmlMarshalIndent E output of None \<Rightarrow> [] | Some data \<Rightarrow> data) +
                lenBytes xmlHeader,
              None))"

subsection \<open>Reading a document back\<close>





subsection \<open>writeOutput\<close>

text \<open>
  What \<open>writeOutput\<close> leaves on disk: the file at \<open>wPath\<close> received \<open>wData\<close> through the
  plain file writer, or through the gzip writer when \<open>wGzip\<close> holds.
\<close>

record written =
  wPath :: string
  wGzip :: bool
  wData :: string

definition writeOutput ::
  "lib \<Rightarrow> encoders \<Rightarrow> OS \<Rightarrow> FileInfo list \<Rightarrow> string \<Rightarrow> string \<Rightarrow> bool \<Rightarrow> Stats \<Rightarrow>
   (int64 \<times> error option) \<times> written option" where
  "writeOutput L E os fileInfos outputPath format compress stats =
     (if \<not> Create os outputPath then ((0, Some (ErrCreate outputPath)), None)
      else (let fmt = ToLower L format;
                (data, n, err) =
                  (if fmt = ''json'' then writeJSONOutput E os fileInfos stats
                   else if fmt = ''xml'' then writeXMLOutput E os fileInfos stats
                   else if fmt = ''markdown'' \<or> fmt = ''md'' then writeMarkdownOutput os fileInfos stats
                   else writeTextOutput os fileInfos stats)
            in ((n, err), Some \<lparr>wPath = outputPath, wGzip = compress, wData = data\<rparr>)))"

section \<open>The run\<close>

text \<open>
  \<open>main\<close> from the validation of the resolved configuration on. The flags it reads
  directly, next to \<open>config\<close>, are kept apart as in the source.
\<close>

record Flags =
  excludePattern :: string
  includePattern :: string
  outputFormat :: string
  compress :: bool
  dryRun :: bool
  parallel :: int

definition validateDirectory :: "OS \<Rightarrow> string \<Rightarrow> error option" where
  "validateDirectory os dirPath =
     (case Stat os dirPath of
        None \<Rightarrow> Some (ErrStat dirPath)
      | Some info \<Rightarrow> if \<not> fiIsDir info then Some (ErrNotDir dirPath) else None)"

definition validateFilePath :: "OS \<Rightarrow> string \<Rightarrow> error option" where
  "validateFilePath os filePath =
     (let dir = Dir filePath
      in case Stat os dir of
           None \<Rightarrow> Some (ErrStat dir)
         | Some info \<Rightarrow> if \<not> fiIsDir info then Some (ErrNotDir dir) else None)"

fun checkExtensions :: "lib \<Rightarrow> string list \<Rightarrow> error option" where
  "checkExtensions L [] = None"
| "checkExtensions L (ext # rest) =
     (let ext = TrimSpace L ext
      in if \<not> HasPrefix ext ''.'' \<and> ext \<noteq> ''*'' then Some (ErrExtension ext)
         else checkExtensions L rest)"

definition validateExtensions :: "lib \<Rightarrow> string \<Rightarrow> error option" where
  "validateExtensions L extStr =
     (if extStr = [] then None else checkExtensions L (splitOn CHR '','' extStr))"

definition compilePattern :: "lib \<Rightarrow> string \<Rightarrow> error + regexp option" where
  "compilePattern L pattern =
     (if pattern \<noteq> [] then
        (case Compile L pattern of None \<Rightarrow> Inl (ErrPattern pattern) | Some re \<Rightarrow> Inr (Some re))
      else Inr None)"

definition zeroStats :: Stats where
  "zeroStats = \<lparr>FilesProcessed = 0, Directories = 0, TotalBytes = 0, Duration = F64 0 0, OutputSize = 0\<rparr>"

text \<open>Everything up to the end of the walk: the validations, the patterns, the discovery.\<close>

datatype fatal = Fatal error | WalkFailed walkErr

definition discover ::
  "lib \<Rightarrow> OS \<Rightarrow> Flags \<Rightarrow> Config \<Rightarrow> fatal + (string list \<times> Stats)" where
  "discover L os flags config =
     (case validateDirectory os (InputDir config) of Some e \<Rightarrow> Inl (Fatal e) | None \<Rightarrow>
      case validateFilePath os (OutputFile config) of Some e \<Rightarrow> Inl (Fatal e) | None \<Rightarrow>
      case validateExtensions L (joinWith '','' (Extensions config)) of Some e \<Rightarrow> Inl (Fatal e) | None \<Rightarrow>
      case compilePattern L (excludePattern flags) of Inl e \<Rightarrow> Inl (Fatal e) | Inr excludeRegex \<Rightarrow>
      case compilePattern L (includePattern flags) of Inl e \<Rightarrow> Inl (Fatal e) | Inr includeRegex \<Rightarrow>
      case Walk os (InputDir config) (walkFn L config excludeRegex includeRegex) ([], zeroStats) of
        (Some err, st) \<Rightarrow> Inl (WalkFailed err)
      | (None, st) \<Rightarrow> Inr st)"

text \<open>
  The end of \<open>main\<close>: the duration, the output unless this is a dry run, the summary. An
  outcome is the exit of the process, \<open>Exit1\<close> after a fatal message or \<open>Completed\<close> with the
  statistics the summary prints, together with the output file the run left behind, if any.
\<close>

datatype outcome = Exit1 fatal "written option" | Completed Stats "written option"

definition finish ::
  "lib \<Rightarrow> encoders \<Rightarrow> OS \<Rightarrow> Flags \<Rightarrow> Config \<Rightarrow> FileInfo list \<times> Stats \<Rightarrow> outcome" where
  "finish L E os flags config res =
     (case res of (fileInfos, stats) \<Rightarrow>
        (let stats = stats\<lparr>Duration := Elapsed os\<rparr>
         in if \<not> dryRun flags then
              (case writeOutput L E os fileInfos (OutputFile config) (outputFormat flags)
                      (compress flags) stats of
                 ((outputSize, Some err), file) \<Rightarrow> Exit1 (Fatal err) file
               | ((outputSize, None), file) \<Rightarrow> Completed (stats\<lparr>OutputSize := outputSize\<rparr>) file)
            else Completed stats None))"

inductive mainRun :: "lib \<Rightarrow> encoders \<Rightarrow> OS \<Rightarrow> Flags \<Rightarrow> Config \<Rightarrow> outcome \<Rightarrow> bool"
  for L :: lib and E :: encoders and os :: OS and flags :: Flags and config :: Config where
  aborted: "discover L os flags config = Inl e \<Longrightarrow> mainRun L E os flags config (Exit1 e None)"
| sequential: "discover L os flags config = Inr (filePaths, stats) \<Longrightarrow> \<not> 1 < parallel flags \<Longrightarrow>
     mainRun L E os flags config
       (finish L E os flags config (processFilesSequential L os filePaths (InputDir config) stats))"
| parallel: "discover L os flags config = Inr (filePaths, stats) \<Longrightarrow> 1 < parallel flags \<Longrightarrow>
     processFilesParallel L os filePaths (InputDir config) (parallel flags) stats res \<Longrightarrow>
     mainRun L E os flags config (finish L E os flags config res)"

section \<open>Example inputs\<close>

text \<open>
  Concrete inputs for the examples below. \<open>exampleLib\<close> stands for the library on the
  inputs the examples use: \<open>Rel\<close> of a clean path below a clean base, strings without
  bytes \<open>\<ge> 0x80\<close> or surrounding blanks, and patterns that are plain literals, with \<open>(\<close>
  as the pattern that does not compile.
\<close>

definition exampleLib :: lib where
  "exampleLib =
     \<lparr>Rel = (\<lambda>base path.
              if HasPrefix path (base @ ''/'') then Some (drop (length base + 1) path) else None),
      foldUnicode = (\<lambda>s t. s = t),
      lowerUnicode = (\<lambda>s. s),
      TrimSpace = (\<lambda>s. s),
      Compile = (\<lambda>p. if p = ''('' then None
                     else Some (\<lambda>s. list_ex (\<lambda>i. HasPrefix (drop i s) p) [0..<Suc (length s)]))\<rparr>"

definition exampleConfig :: Config where
  "exampleConfig =
     \<lparr>InputDir = ''proj'', OutputFile = ''out/combined.txt'', Extensions = [''.go''],
      ExcludeHidden = True, MaxFileSize = 0, MinFileSize = 0, ExcludePattern = [],
      IncludePattern = [], OutputFormat = ''text'', Compress = False, Parallel = 1,
      Quiet = False, Verbose = False, DryRun = False\<rparr>"

definition regular :: "string \<Rightarrow> int64 \<Rightarrow> osFileInfo" where
  "regular name n = \<lparr>fiName = name, fiSize = n, fiIsDir = False, fiModTime = ''2024-01-01 00:00:00''\<rparr>"

definition directory :: "string \<Rightarrow> osFileInfo" where
  "directory name = \<lparr>fiName = name, fiSize = 4096, fiIsDir = True, fiModTime = ''2024-01-01 00:00:00''\<rparr>"


text \<open>
  The scenario of the specification: \<open>a.go\<close>, \<open>.hidden/b.go\<close> and \<open>c.txt\<close>, 50 bytes each,
  in a directory called \<open>name\<close>, listed in the sorted order \<open>readDirNames\<close> gives.
\<close>

definition exampleTree :: "string \<Rightarrow> fsnode" where
  "exampleTree name =
     Node (directory name)
       (Some [Node (directory ''.hidden'') (Some [Node (regular ''b.go'' 50) None]),
              Node (regular ''a.go'' 50) None,
              Node (regular ''c.txt'' 50) None])"

definition exampleOS :: OS where
  "exampleOS =
     \<lparr>Stat = map_of
         [(''proj'', directory ''proj''), (''out'', directory ''out''),
          (''proj/a.go'', regular ''a.go'' 50), (''proj/c.txt'', regular ''c.txt'' 50),
          (''proj/gone.go'', regular ''gone.go'' 7)],
      ReadFile = map_of
         [(''proj/a.go'', replicate 50 CHR ''a''), (''proj/c.txt'', replicate 50 CHR ''c'')],
      Create = (\<lambda>path. path = ''out/combined.txt''),
      Tree = (\<lambda>root. if root = ''proj'' \<or> root = ''.'' then exampleTree root else NoStat root),
      Now = ''2024-01-01 00:00:00'',
      NowRFC3339 = ''2024-01-01T00:00:00Z'',
      Elapsed = F64 3 2\<rparr>"

section \<open>Derived notions used in the statements\<close>

text \<open>
  A path is ingested when \<open>processSingleFile\<close> returns no error for it; \<open>recordOf\<close> is the
  record it returns; \<open>bump\<close> is the effect on the statistics of appending a list of records.
\<close>

definition ingested :: "lib \<Rightarrow> OS \<Rightarrow> string \<Rightarrow> string \<Rightarrow> bool" where
  "ingested L os baseDir path = (snd (processSingleFile L os path baseDir) = None)"

definition recordOf :: "lib \<Rightarrow> OS \<Rightarrow> string \<Rightarrow> string \<Rightarrow> FileInfo" where
  "recordOf L os baseDir path = fst (processSingleFile L os path baseDir)"

definition bump :: "Stats \<Rightarrow> FileInfo list \<Rightarrow> Stats" where
  "bump stats infos =
     stats\<lparr>FilesProcessed := FilesProcessed stats + word_of_nat (length infos),
            TotalBytes := TotalBytes stats + sum_list (map Size infos)\<rparr>"


text \<open>
  For the interleaving: the paths a state still has to deliver (not yet sent, queued, or
  held by a worker), the invariant that ties them to the records already delivered, and a
  measure that every step decreases.
\<close>

fun held :: "worker \<Rightarrow> string multiset" where
  "held (Holding path) = {#path#}"
| "held Idle = {#}"
| "held Exited = {#}"

definition inFlight :: "pstate \<Rightarrow> string multiset" where
  "inFlight s = mset (toSend s) + mset (fileChan s) + (\<Sum>w\<leftarrow>workersOf s. held w)"

definition pinv :: "lib \<Rightarrow> OS \<Rightarrow> string \<Rightarrow> string list \<Rightarrow> int \<Rightarrow> pstate \<Rightarrow> bool" where
  "pinv L os baseDir paths workers s =
     (mset (resultChan s) + image_mset (recordOf L os baseDir) (filter_mset (ingested L os baseDir) (inFlight s))
        = image_mset (recordOf L os baseDir) (filter_mset (ingested L os baseDir) (mset paths))
      \<and> length (workersOf s) = nat workers
      \<and> (chanClosed s \<longrightarrow> toSend s = [])
      \<and> (Exited \<in> set (workersOf s) \<longrightarrow> fileChan s = [] \<and> chanClosed s))"

fun wcost :: "worker \<Rightarrow> nat" where
  "wcost (Holding path) = 2"
| "wcost Idle = 1"
| "wcost Exited = 0"

definition pmeasure :: "pstate \<Rightarrow> nat" where
  "pmeasure s =
     3 * length (toSend s) + 2 * length (fileChan s) + (if chanClosed s then 0 else 1) +
     (\<Sum>w\<leftarrow>workersOf s. wcost w)"

definition exampleReordered :: "FileInfo list" where
  "exampleReordered =
     [recordOf exampleLib exampleOS ''proj'' ''proj/c.txt'',
      recordOf exampleLib exampleOS ''proj'' ''proj/a.go'']"



fun countDirs :: "fsnode \<Rightarrow> nat" where
  "countDirs (NoStat name) = 0"
| "countDirs (Node info None) = 0"
| "countDirs (Node info (Some names)) =
     (if \<not> fiIsDir info then 0
      else if isHidden (fiName info) then 1
      else 1 + sum_list (map countDirs names))"



definition badPattern :: "lib \<Rightarrow> string \<Rightarrow> bool" where
  "badPattern L pattern = (pattern \<noteq> [] \<and> Compile L pattern = None)"

definition exampleEncoders :: encoders where
  "exampleEncoders =
     \<lparr>encodeIndent = (\<lambda>doc. None), marshal = (\<lambda>doc. None),
      xmlEncodeIndent = (\<lambda>doc. None), xmlMarshalIndent = (\<lambda>doc. None)\<rparr>"


text \<open>
  For the run over an empty directory: a configuration that passes every validation, the
  statistics such a run ends with (before the output size is known), the two streaming
  formats as \<open>writeOutput\<close> dispatches them, and the artifacts made of header and footer
  only.
\<close>

definition validConfig :: "lib \<Rightarrow> OS \<Rightarrow> Flags \<Rightarrow> Config \<Rightarrow> bool" where
  "validConfig L os flags config =
     (validateDirectory os (InputDir config) = None \<and>
      validateFilePath os (OutputFile config) = None \<and>
      validateExtensions L (joinWith '','' (Extensions config)) = None \<and>
      \<not> badPattern L (excludePattern flags) \<and> \<not> badPattern L (includePattern flags))"

definition emptyDirStats :: "OS \<Rightarrow> Stats" where
  "emptyDirStats os = zeroStats\<lparr>Directories := 1, Duration := Elapsed os\<rparr>"

definition textFormat :: "lib \<Rightarrow> string \<Rightarrow> bool" where
  "textFormat L format =
     (ToLower L format \<noteq> ''json'' \<and> ToLower L format \<noteq> ''xml'' \<and>
      ToLower L format \<noteq> ''markdown'' \<and> ToLower L format \<noteq> ''md'')"

definition markdownFormat :: "lib \<Rightarrow> string \<Rightarrow> bool" where
  "markdownFormat L format = (ToLower L format = ''markdown'' \<or> ToLower L format = ''md'')"

definition emptyTextArtifact :: "OS \<Rightarrow> string" where
  "emptyTextArtifact os =
     textHeader os (emptyDirStats os) @
     textFooter (emptyDirStats os) (lenBytes (textHeader os (emptyDirStats os)))"

definition emptyMarkdownArtifact :: "OS \<Rightarrow> string" where
  "emptyMarkdownArtifact os = mdHeader os (emptyDirStats os) @ mdFooter (emptyDirStats os)"

definition emptyDirOS :: OS where
  "emptyDirOS =
     \<lparr>Stat = map_of [(''empty'', directory ''empty''), (''out'', directory ''out'')],
      ReadFile = (\<lambda>path. None),
      Create = (\<lambda>path. path = ''out/combined.txt''),
      Tree = (\<lambda>root. if root = ''empty'' then Node (directory ''empty'') (Some []) else NoStat root),
      Now = ''2024-01-01 00:00:00'',
      NowRFC3339 = ''2024-01-01T00:00:00Z'',
      Elapsed = F64 3 2\<rparr>"

definition textFlags :: "int \<Rightarrow> Flags" where
  "textFlags workers =
     \<lparr>excludePattern = [], includePattern = [], outputFormat = ''text'', compress = False,
      dryRun = False, parallel = workers\<rparr>"








section \<open>Properties of the predicate filter\<close>

lemma isHidden_iff:
  "isHidden name =
     (case name of [] \<Rightarrow> False | c # rest \<Rightarrow> c = CHR ''.'' \<or> (c = CHR ''~'' \<and> rest \<noteq> []))"
  by (cases name) (auto simp: isHidden_def HasPrefix_def)

lemma EqualFold_ASCII:
  "isASCII s \<Longrightarrow> isASCII t \<Longrightarrow> EqualFold L s t = (map lowerASCII s = map lowerASCII t)"
proof (induction L s t rule: EqualFold.induct)
  case (4 L a s b t)
  have ab: "byte a < 128" "byte b < 128" and st: "isASCII s" "isASCII t"
    using "4.prems" by (simp_all add: isASCII_def)
  have inj: "byte a = byte b \<Longrightarrow> a = b"
    by (simp add: byte_def)
  have low: "lowerASCII a = lowerASCII b \<longleftrightarrow>
      a = b \<or> (let sr = min (byte a) (byte b); tr = max (byte a) (byte b)
               in 65 \<le> sr \<and> sr \<le> 90 \<and> tr = sr + 32)"
  proof -
    have c: "\<And>n. n < 256 \<Longrightarrow> byte (char_of n) = n"
      by (simp add: byte_def)
    have "lowerASCII a = lowerASCII b \<longleftrightarrow> byte (lowerASCII a) = byte (lowerASCII b)"
      by (auto simp: byte_def)
    also have "\<dots> \<longleftrightarrow> a = b \<or> (let sr = min (byte a) (byte b); tr = max (byte a) (byte b)
               in 65 \<le> sr \<and> sr \<le> 90 \<and> tr = sr + 32)"
      using ab inj by (auto simp: lowerASCII_def c Let_def min_def max_def)
    finally show ?thesis .
  qed
  show ?case
  proof (cases "a = b")
    case True
    with "4.IH"(1) ab st show ?thesis by simp
  next
    case False
    with "4.IH"(2) ab st low show ?thesis
      by (auto simp: Let_def)
  qed
qed (simp_all)

lemma find_ruleOrder:
  "find P ruleOrder = None \<longleftrightarrow>
     \<not> P HiddenRule \<and> \<not> P MaxSizeRule \<and> \<not> P MinSizeRule \<and> \<not> P ExtensionRule \<and> \<not> P ExcludeRule \<and> \<not> P IncludeRule"
  by (simp add: ruleOrder_def)

lemma shouldProcessFile_firstRejecting:
  "shouldProcessFile L path info config ex inc \<longleftrightarrow> firstRejecting L path info config ex inc = None"
  unfolding firstRejecting_def find_ruleOrder
  by (simp add: shouldProcessFile_def isHidden_iff extensionFound_def list_ex_iff Let_def
      split: option.splits)

text \<open>
  C2. The filter is the six rules of the specification in their order, the first one that
  rejects deciding: the code accepts exactly when no rule rejects. A leaf name starting
  with \<open>.\<close>, or with \<open>~\<close> and longer than one byte, is rejected by the hidden rule when
  \<open>ExcludeHidden\<close> is set, whatever the later rules say; a size above a positive maximum or
  below a positive minimum is rejected; a zero-byte file is rejected with \<open>MinFileSize = 1\<close>
  and, with \<open>MinFileSize = 0\<close>, accepted when no other rule rejects it; on extensions
  without bytes \<open>\<ge> 0x80\<close> the comparison is equality up to the case of letters.
\<close>

theorem shouldProcessFile_rules:
  "(shouldProcessFile L path info config ex inc \<longleftrightarrow> firstRejecting L path info config ex inc = None)
   \<and> (ExcludeHidden config \<and> (fiName info = CHR ''.'' # rest \<or> (fiName info = CHR ''~'' # rest \<and> rest \<noteq> []))
        \<longrightarrow> firstRejecting L path info config ex inc = Some HiddenRule
            \<and> \<not> shouldProcessFile L path info config ex inc)
   \<and> (0 < sint (MaxFileSize config) \<and> sint (MaxFileSize config) < sint (fiSize info)
        \<longrightarrow> \<not> shouldProcessFile L path info config ex inc)
   \<and> (0 < sint (MinFileSize config) \<and> sint (fiSize info) < sint (MinFileSize config)
        \<longrightarrow> \<not> shouldProcessFile L path info config ex inc)
   \<and> (fiSize info = 0 \<and> MinFileSize config = 1 \<longrightarrow> \<not> shouldProcessFile L path info config ex inc)
   \<and> (fiSize info = 0 \<and> MinFileSize config = 0 \<and>
        (\<forall>r \<in> set ruleOrder - {MinSizeRule}. \<not> specRejects L path info config ex inc r)
        \<longrightarrow> shouldProcessFile L path info config ex inc)
   \<and> (isASCII (Ext path) \<and> isASCII allowedExt \<longrightarrow>
        EqualFold L (Ext path) allowedExt = (map lowerASCII (Ext path) = map lowerASCII allowedExt))"
proof -
  let ?accept = "shouldProcessFile L path info config ex inc"
  let ?first = "firstRejecting L path info config ex inc"
  have c1: "?accept \<longleftrightarrow> ?first = None"
    by (rule shouldProcessFile_firstRejecting)
  have c2: "?first = Some HiddenRule \<and> \<not> ?accept"
    if "ExcludeHidden config \<and>
        (fiName info = CHR ''.'' # rest \<or> (fiName info = CHR ''~'' # rest \<and> rest \<noteq> []))"
  proof -
    from that have "?first = Some HiddenRule"
      by (auto simp: firstRejecting_def ruleOrder_def)
    then show ?thesis
      by (simp add: shouldProcessFile_firstRejecting)
  qed
  have c3: "\<not> ?accept"
    if "0 < sint (MaxFileSize config) \<and> sint (MaxFileSize config) < sint (fiSize info)"
    using that by (simp add: shouldProcessFile_def)
  have c4: "\<not> ?accept"
    if "0 < sint (MinFileSize config) \<and> sint (fiSize info) < sint (MinFileSize config)"
    using that by (simp add: shouldProcessFile_def)
  have c5: "\<not> ?accept" if "fiSize info = 0 \<and> MinFileSize config = 1"
    using that by (simp add: shouldProcessFile_def)
  have c6: "?accept"
    if a: "fiSize info = 0 \<and> MinFileSize config = 0 \<and>
        (\<forall>r \<in> set ruleOrder - {MinSizeRule}. \<not> specRejects L path info config ex inc r)"
  proof -
    from a have "\<not> specRejects L path info config ex inc MinSizeRule"
      by simp
    moreover have "\<And>r. r \<in> set ruleOrder"
      by (case_tac r) (simp_all add: ruleOrder_def)
    with a have "\<And>r. r \<noteq> MinSizeRule \<Longrightarrow> \<not> specRejects L path info config ex inc r"
      by blast
    then have "\<not> specRejects L path info config ex inc HiddenRule"
      "\<not> specRejects L path info config ex inc MaxSizeRule"
      "\<not> specRejects L path info config ex inc ExtensionRule"
      "\<not> specRejects L path info config ex inc ExcludeRule"
      "\<not> specRejects L path info config ex inc IncludeRule"
      by blast+
    ultimately show ?thesis
      unfolding shouldProcessFile_firstRejecting firstRejecting_def find_ruleOrder
      by blast
  qed
  have c7: "EqualFold L (Ext path) allowedExt = (map lowerASCII (Ext path) = map lowerASCII allowedExt)"
    if "isASCII (Ext path) \<and> isASCII allowedExt"
    using that by (simp add: EqualFold_ASCII)
  show ?thesis
    using c1 c2 c3 c4 c5 c6 c7 by blast
qed

lemma Ext_a_GO: "Ext ''proj/a.GO'' = ''.GO''" by (simp add: Ext_def)

theorem shouldProcessFile_rules_witness:
  "shouldProcessFile exampleLib ''proj/a.GO'' (regular ''a.GO'' 0) exampleConfig None None
   \<and> \<not> shouldProcessFile exampleLib ''proj/a.GO'' (regular ''a.GO'' 0) (exampleConfig\<lparr>MinFileSize := 1\<rparr>) None None
   \<and> \<not> shouldProcessFile exampleLib ''proj/a.go'' (regular ''a.go'' 50) (exampleConfig\<lparr>MinFileSize := 100\<rparr>) None None
   \<and> \<not> shouldProcessFile exampleLib ''proj/a.go'' (regular ''a.go'' 500) (exampleConfig\<lparr>MaxFileSize := 100\<rparr>) None None
   \<and> firstRejecting exampleLib ''proj/.env.go'' (regular ''.env.go'' 500) (exampleConfig\<lparr>MaxFileSize := 100\<rparr>) None None = Some HiddenRule
   \<and> firstRejecting exampleLib ''proj/~tmp.go'' (regular ''~tmp.go'' 5) exampleConfig None None = Some HiddenRule
   \<and> EqualFold exampleLib (Ext ''proj/a.GO'') ''.go''"
proof -
  note r = shouldProcessFile_rules [where L = exampleLib and ex = None and inc = None]
  have asc: "isASCII (Ext ''proj/a.GO'') \<and> isASCII ''.go''"
    by (simp add: Ext_a_GO isASCII_def byte_def)
  have low: "map lowerASCII (Ext ''proj/a.GO'') = map lowerASCII ''.go''"
    unfolding Ext_a_GO by code_simp
  have fold: "EqualFold exampleLib (Ext ''proj/a.GO'') ''.go''"
    using r [where path = "''proj/a.GO''" and allowedExt = "''.go''"] asc low by blast
  have others: "\<forall>r \<in> set ruleOrder - {MinSizeRule}.
      \<not> specRejects exampleLib ''proj/a.GO'' (regular ''a.GO'' 0) exampleConfig None None r"
    using fold by (auto simp: ruleOrder_def exampleConfig_def regular_def)
  have h1: "fiSize (regular ''a.GO'' 0) = 0 \<and> MinFileSize exampleConfig = 0"
    by (simp add: exampleConfig_def regular_def)
  have c1: "shouldProcessFile exampleLib ''proj/a.GO'' (regular ''a.GO'' 0) exampleConfig None None"
    using r [where path = "''proj/a.GO''" and info = "regular ''a.GO'' 0" and config = exampleConfig]
      others h1 by blast
  have h2: "fiSize (regular ''a.GO'' 0) = 0 \<and> MinFileSize (exampleConfig\<lparr>MinFileSize := 1\<rparr>) = 1"
    by (simp add: regular_def)
  have c2: "\<not> shouldProcessFile exampleLib ''proj/a.GO'' (regular ''a.GO'' 0) (exampleConfig\<lparr>MinFileSize := 1\<rparr>) None None"
    using r [where path = "''proj/a.GO''" and info = "regular ''a.GO'' 0"
        and config = "exampleConfig\<lparr>MinFileSize := 1\<rparr>"] h2 by blast
  have h3: "0 < sint (MinFileSize (exampleConfig\<lparr>MinFileSize := 100\<rparr>)) \<and>
      sint (fiSize (regular ''a.go'' 50)) < sint (MinFileSize (exampleConfig\<lparr>MinFileSize := 100\<rparr>))"
    by (simp add: regular_def)
  have c3: "\<not> shouldProcessFile exampleLib ''proj/a.go'' (regular ''a.go'' 50) (exampleConfig\<lparr>MinFileSize := 100\<rparr>) None None"
    using r [where path = "''proj/a.go''" and info = "regular ''a.go'' 50"
        and config = "exampleConfig\<lparr>MinFileSize := 100\<rparr>"] h3 by blast
  have h4: "0 < sint (MaxFileSize (exampleConfig\<lparr>MaxFileSize := 100\<rparr>)) \<and>
      sint (MaxFileSize (exampleConfig\<lparr>MaxFileSize := 100\<rparr>)) < sint (fiSize (regular ''a.go'' 500))"
    by (simp add: regular_def)
  have c4: "\<not> shouldProcessFile exampleLib ''proj/a.go'' (regular ''a.go'' 500) (exampleConfig\<lparr>MaxFileSize := 100\<rparr>) None None"
    using r [where path = "''proj/a.go''" and info = "regular ''a.go'' 500"
        and config = "exampleConfig\<lparr>MaxFileSize := 100\<rparr>"] h4 by blast
  have h5: "ExcludeHidden (exampleConfig\<lparr>MaxFileSize := 100\<rparr>) \<and>
      (fiName (regular ''.env.go'' 500) = CHR ''.'' # ''env.go'' \<or>
       (fiName (regular ''.env.go'' 500) = CHR ''~'' # ''env.go'' \<and> ''env.go'' \<noteq> []))"
    by (simp add: regular_def exampleConfig_def)
  have c5: "firstRejecting exampleLib ''proj/.env.go'' (regular ''.env.go'' 500) (exampleConfig\<lparr>MaxFileSize := 100\<rparr>) None None = Some HiddenRule"
    using r [where path = "''proj/.env.go''" and info = "regular ''.env.go'' 500"
        and config = "exampleConfig\<lparr>MaxFileSize := 100\<rparr>" and rest = "''env.go''"] h5 by blast
  have h6: "ExcludeHidden exampleConfig \<and>
      (fiName (regular ''~tmp.go'' 5) = CHR ''.'' # ''tmp.go'' \<or>
       (fiName (regular ''~tmp.go'' 5) = CHR ''~'' # ''tmp.go'' \<and> ''tmp.go'' \<noteq> []))"
    by (simp add: regular_def exampleConfig_def)
  have c6: "firstRejecting exampleLib ''proj/~tmp.go'' (regular ''~tmp.go'' 5) exampleConfig None None = Some HiddenRule"
    using r [where path = "''proj/~tmp.go''" and info = "regular ''~tmp.go'' 5"
        and config = exampleConfig and rest = "''tmp.go''"] h6 by blast
  from c1 c2 c3 c4 c5 c6 fold show ?thesis by blast
qed

section \<open>Properties of sequential ingestion\<close>

lemma processSingleFile_Path: "Path (fst (processSingleFile L os path baseDir)) = path"
  by (simp add: processSingleFile_def Let_def split: option.splits)

lemma processSingleFile_fails_iff:
  "snd (processSingleFile L os path baseDir) \<noteq> None \<longleftrightarrow> Stat os path = None \<or> ReadFile os path = None"
  by (simp add: processSingleFile_def Let_def split: option.splits)

lemma bump_Nil: "bump stats [] = stats"
  by (simp add: bump_def)

lemma bump_Cons:
  "bump (stats\<lparr>FilesProcessed := FilesProcessed stats + 1, TotalBytes := TotalBytes stats + Size info\<rparr>) infos
     = bump stats (info # infos)"
  by (simp add: bump_def add.assoc)

lemma seqLoop_eq:
  "seqLoop L os baseDir paths fileInfos stats =
     (fileInfos @ map (recordOf L os baseDir) (filter (ingested L os baseDir) paths),
      bump stats (map (recordOf L os baseDir) (filter (ingested L os baseDir) paths)))"
proof (induction paths arbitrary: fileInfos stats)
  case Nil
  then show ?case by (simp add: bump_Nil)
next
  case (Cons path rest)
  obtain info err where p: "processSingleFile L os path baseDir = (info, err)"
    by (cases "processSingleFile L os path baseDir")
  show ?case
  proof (cases err)
    case None
    with p have "ingested L os baseDir path" "recordOf L os baseDir path = info"
      by (simp_all add: ingested_def recordOf_def)
    with p None Cons.IH show ?thesis
      by (simp add: bump_Cons)
  next
    case (Some e)
    with p have "\<not> ingested L os baseDir path"
      by (simp add: ingested_def)
    with p Some Cons.IH show ?thesis
      by simp
  qed
qed

lemma processFilesSequential_eq:
  "processFilesSequential L os paths baseDir stats =
     (map (recordOf L os baseDir) (filter (ingested L os baseDir) paths),
      bump stats (map (recordOf L os baseDir) (filter (ingested L os baseDir) paths)))"
  by (simp add: processFilesSequential_def seqLoop_eq)

text \<open>
  C4. Sequential ingestion handles the paths one at a time in the order of the list: the
  paths of its result are the ingested paths of the input in their input order, each
  record is the one \<open>processSingleFile\<close> returns for its path, a failing path is skipped and
  the paths after it are still processed, and the result of a list is the result of its
  first part followed by the result of the rest. A second run over the same file system
  returns the same records in the same order, whatever the statistics it starts from.
\<close>

theorem sequential_order:
  "map Path (fst (processFilesSequential L os paths baseDir stats)) = filter (ingested L os baseDir) paths
   \<and> fst (processFilesSequential L os paths baseDir stats)
       = map (\<lambda>path. fst (processSingleFile L os path baseDir)) (filter (ingested L os baseDir) paths)
   \<and> fst (processFilesSequential L os paths baseDir stats')
       = fst (processFilesSequential L os paths baseDir stats)
   \<and> fst (processFilesSequential L os (before @ after) baseDir stats)
       = fst (processFilesSequential L os before baseDir stats) @
         fst (processFilesSequential L os after baseDir stats)"
proof -
  have "map Path (map (recordOf L os baseDir) xs) = xs" for xs
    by (induction xs) (simp_all add: recordOf_def processSingleFile_Path)
  then show ?thesis
    by (simp add: processFilesSequential_eq) (simp add: recordOf_def)
qed

lemma ex_ingested:
  "ingested exampleLib exampleOS ''proj'' ''proj/a.go''"
  "\<not> ingested exampleLib exampleOS ''proj'' ''proj/gone.go''"
  "\<not> ingested exampleLib exampleOS ''proj'' ''proj/none.go''"
  "ingested exampleLib exampleOS ''proj'' ''proj/c.txt''"
  by (simp_all add: ingested_def processSingleFile_def exampleOS_def Let_def)

theorem sequential_order_witness:
  "map Path (fst (processFilesSequential exampleLib exampleOS
      [''proj/a.go'', ''proj/gone.go'', ''proj/none.go'', ''proj/c.txt''] ''proj'' zeroStats))
    = [''proj/a.go'', ''proj/c.txt'']"
proof -
  from sequential_order [of exampleLib exampleOS
      "[''proj/a.go'', ''proj/gone.go'', ''proj/none.go'', ''proj/c.txt'']" "''proj''" zeroStats]
  have "map Path (fst (processFilesSequential exampleLib exampleOS
      [''proj/a.go'', ''proj/gone.go'', ''proj/none.go'', ''proj/c.txt''] ''proj'' zeroStats))
    = filter (ingested exampleLib exampleOS ''proj'')
        [''proj/a.go'', ''proj/gone.go'', ''proj/none.go'', ''proj/c.txt'']"
    by blast
  then show ?thesis
    by (simp add: ex_ingested)
qed

text \<open>
  C5. When \<open>os.Stat\<close> or \<open>os.ReadFile\<close> fails for a path, \<open>processSingleFile\<close> returns an
  error, and the sequential run behaves as if the path were not in the list: the same
  records and the same statistics (\<open>FilesProcessed\<close> and \<open>TotalBytes\<close> untouched), the
  remaining paths processed. No record of the result carries that path, and every record
  of the result is complete: its size and time are those of a successful \<open>Stat\<close> and its
  content is what \<open>ReadFile\<close> returned.
\<close>

theorem failed_file_leaves_no_record:
  assumes "Stat os path = None \<or> ReadFile os path = None"
  shows "snd (processSingleFile L os path baseDir) \<noteq> None
    \<and> processFilesSequential L os (before @ path # after) baseDir stats
        = processFilesSequential L os (before @ after) baseDir stats
    \<and> path \<notin> Path ` set (fst (processFilesSequential L os paths baseDir stats))
    \<and> list_all (\<lambda>info. \<exists>fileInfo. Stat os (Path info) = Some fileInfo \<and> Size info = fiSize fileInfo \<and>
          Modified info = fiModTime fileInfo \<and> ReadFile os (Path info) = Some (Content info))
        (fst (processFilesSequential L os paths baseDir stats))"
proof -
  have f: "snd (processSingleFile L os path baseDir) \<noteq> None"
    using assms processSingleFile_fails_iff by blast
  then have n: "\<not> ingested L os baseDir path"
    by (simp add: ingested_def)
  have "map Path (fst (processFilesSequential L os paths baseDir stats)) = filter (ingested L os baseDir) paths"
    by (simp add: processFilesSequential_eq recordOf_def processSingleFile_Path o_def)
  then have "Path ` set (fst (processFilesSequential L os paths baseDir stats))
      = {p \<in> set paths. ingested L os baseDir p}"
    by (metis set_filter set_map)
  with n have notin: "path \<notin> Path ` set (fst (processFilesSequential L os paths baseDir stats))"
    by simp
  have whole: "\<exists>fileInfo. Stat os (Path (recordOf L os baseDir p)) = Some fileInfo \<and>
      Size (recordOf L os baseDir p) = fiSize fileInfo \<and>
      Modified (recordOf L os baseDir p) = fiModTime fileInfo \<and>
      ReadFile os (Path (recordOf L os baseDir p)) = Some (Content (recordOf L os baseDir p))"
    if "ingested L os baseDir p" for p
    using that
    by (auto simp: ingested_def recordOf_def processSingleFile_def Let_def split: option.splits)
  have "list_all (\<lambda>info. \<exists>fileInfo. Stat os (Path info) = Some fileInfo \<and> Size info = fiSize fileInfo \<and>
          Modified info = fiModTime fileInfo \<and> ReadFile os (Path info) = Some (Content info))
        (fst (processFilesSequential L os paths baseDir stats))"
    using whole by (simp add: processFilesSequential_eq list_all_iff)
  with f n notin show ?thesis
    by (simp add: processFilesSequential_eq)
qed

theorem failed_file_leaves_no_record_witness:
  "processFilesSequential exampleLib exampleOS [''proj/a.go'', ''proj/gone.go'', ''proj/c.txt''] ''proj'' zeroStats
     = processFilesSequential exampleLib exampleOS [''proj/a.go'', ''proj/c.txt''] ''proj'' zeroStats
   \<and> snd (processSingleFile exampleLib exampleOS ''proj/gone.go'' ''proj'') = Some (ErrRead ''proj/gone.go'')
   \<and> FilesProcessed (snd (processFilesSequential exampleLib exampleOS
        [''proj/a.go'', ''proj/gone.go'', ''proj/c.txt''] ''proj'' zeroStats)) = 2
   \<and> TotalBytes (snd (processFilesSequential exampleLib exampleOS
        [''proj/a.go'', ''proj/gone.go'', ''proj/c.txt''] ''proj'' zeroStats)) = 100"
proof -
  have h: "Stat exampleOS ''proj/gone.go'' = None \<or> ReadFile exampleOS ''proj/gone.go'' = None"
    by (simp add: exampleOS_def)
  have e: "snd (processSingleFile exampleLib exampleOS ''proj/gone.go'' ''proj'') = Some (ErrRead ''proj/gone.go'')"
    by (simp add: processSingleFile_def exampleOS_def Let_def regular_def)
  have s: "snd (processFilesSequential exampleLib exampleOS [''proj/a.go'', ''proj/c.txt''] ''proj'' zeroStats)
      = zeroStats\<lparr>FilesProcessed := 2, TotalBytes := 100\<rparr>"
    by (simp add: processFilesSequential_def processSingleFile_def exampleOS_def Let_def regular_def
        zeroStats_def)
  from failed_file_leaves_no_record [OF h, of exampleLib "''proj''" "[''proj/a.go'']" "[''proj/c.txt'']" zeroStats]
  have "processFilesSequential exampleLib exampleOS [''proj/a.go'', ''proj/gone.go'', ''proj/c.txt''] ''proj'' zeroStats
     = processFilesSequential exampleLib exampleOS [''proj/a.go'', ''proj/c.txt''] ''proj'' zeroStats"
    by simp
  with e s show ?thesis by simp
qed

section \<open>Properties of parallel ingestion\<close>

lemma held_update:
  "i < length ws \<Longrightarrow> (\<Sum>w\<leftarrow>ws[i := w']. held w) + held (ws ! i) = (\<Sum>w\<leftarrow>ws. held w) + held w'"
proof (induction ws arbitrary: i)
  case Nil
  then show ?case by simp
next
  case (Cons a ws)
  then show ?case
    by (cases i) (simp_all add: ac_simps)
qed

lemma held_update_Idle:
  "i < length ws \<Longrightarrow> ws ! i = Idle \<Longrightarrow> (\<Sum>w\<leftarrow>ws[i := w']. held w) = (\<Sum>w\<leftarrow>ws. held w) + held w'"
  using held_update [of i ws w'] by simp

lemma held_update_Holding:
  "i < length ws \<Longrightarrow> ws ! i = Holding path \<Longrightarrow>
   (\<Sum>w\<leftarrow>ws. held w) = (\<Sum>w\<leftarrow>ws[i := Idle]. held w) + {#path#}"
  using held_update [of i ws Idle] by simp

lemma pinv_init: "pinv L os baseDir paths workers (pinit paths workers)"
proof -
  have "(\<Sum>w\<leftarrow>replicate n Idle. held w) = {#}" for n
    by (induction n) simp_all
  then show ?thesis
    by (simp add: pinv_def pinit_def inFlight_def)
qed

lemma pinv_step:
  assumes "pstep L os baseDir s s'" and "pinv L os baseDir paths workers s"
  shows "pinv L os baseDir paths workers s'"
  using assms
proof (induction rule: pstep.induct)
  case (send s path rest)
  then show ?case
    by (auto simp: pinv_def inFlight_def)
next
  case (close s)
  then show ?case
    by (auto simp: pinv_def inFlight_def)
next
  case (receive i s path rest)
  then show ?case
    by (auto simp: pinv_def inFlight_def held_update_Idle dest: set_update_subset_insert [THEN subsetD])
next
  case (result i s path info)
  then have "ingested L os baseDir path" "recordOf L os baseDir path = info"
    by (simp_all add: ingested_def recordOf_def)
  with result show ?case
    by (auto simp: pinv_def inFlight_def held_update_Holding [of i "workersOf s" path]
        dest: set_update_subset_insert [THEN subsetD])
next
  case (failure i s path info err)
  then have "\<not> ingested L os baseDir path"
    by (simp add: ingested_def)
  with failure show ?case
    by (auto simp: pinv_def inFlight_def held_update_Holding [of i "workersOf s" path]
        dest: set_update_subset_insert [THEN subsetD])
next
  case (leave i s)
  then show ?case
    by (auto simp: pinv_def inFlight_def held_update_Idle)
qed

lemma pinv_reachable:
  "(pstep L os baseDir)\<^sup>*\<^sup>* (pinit paths workers) s \<Longrightarrow> pinv L os baseDir paths workers s"
  by (induction rule: rtranclp_induct) (auto intro: pinv_init pinv_step)

lemma collect_eq: "collect infos fileInfos stats = (fileInfos @ infos, bump stats infos)"
  by (induction infos arbitrary: fileInfos stats) (simp_all add: bump_Nil bump_Cons)

lemma pfinal_results:
  assumes "pinv L os baseDir paths workers s" and "pfinal s" and "1 \<le> workers"
  shows "mset (resultChan s) = image_mset (recordOf L os baseDir) (filter_mset (ingested L os baseDir) (mset paths))"
proof -
  from assms have ne: "workersOf s \<noteq> []"
    by (auto simp: pinv_def)
  from assms(2) have all: "\<forall>w \<in> set (workersOf s). w = Exited"
    by (simp add: pfinal_def list_all_iff)
  with ne have "Exited \<in> set (workersOf s)"
    by (cases "workersOf s") auto
  with assms(1) have e: "fileChan s = []" "toSend s = []"
    by (auto simp: pinv_def)
  have "(\<Sum>w\<leftarrow>ws. held w) = {#}" if "\<forall>w \<in> set ws. w = Exited" for ws
    using that by (induction ws) simp_all
  with all have "(\<Sum>w\<leftarrow>workersOf s. held w) = {#}"
    by blast
  with e have "inFlight s = {#}"
    by (simp add: inFlight_def)
  with assms(1) show ?thesis
    by (simp add: pinv_def)
qed

lemma bump_mset:
  assumes "mset xs = mset ys"
  shows "bump stats xs = bump stats ys"
proof -
  from assms have "length xs = length ys"
    by (rule mset_eq_length)
  moreover from assms have "mset (map Size xs) = mset (map Size ys)"
    by simp
  then have "sum_list (map Size xs) = sum_list (map Size ys)"
    by (metis sum_mset_sum_list)
  ultimately show ?thesis
    by (simp add: bump_def)
qed

lemma parallel_result:
  assumes "processFilesParallel L os paths baseDir workers stats res" and "1 \<le> workers"
  shows "mset (fst res) = mset (fst (processFilesSequential L os paths baseDir stats))"
    and "snd res = snd (processFilesSequential L os paths baseDir stats)"
proof -
  from assms(1) obtain s where s: "(pstep L os baseDir)\<^sup>*\<^sup>* (pinit paths workers) s" "pfinal s"
    and res: "res = collect (resultChan s) [] stats"
    by (auto simp: processFilesParallel_def)
  from s assms(2) have m: "mset (resultChan s) =
      image_mset (recordOf L os baseDir) (filter_mset (ingested L os baseDir) (mset paths))"
    by (auto intro: pfinal_results pinv_reachable)
  then have m': "mset (resultChan s) = mset (map (recordOf L os baseDir) (filter (ingested L os baseDir) paths))"
    by simp
  show "mset (fst res) = mset (fst (processFilesSequential L os paths baseDir stats))"
    using m by (simp add: res collect_eq processFilesSequential_eq)
  show "snd res = snd (processFilesSequential L os paths baseDir stats)"
    using bump_mset [OF m'] by (simp add: res collect_eq processFilesSequential_eq)
qed

lemma step_send:
  "pstep L os baseDir
     \<lparr>toSend = path # rest, fileChan = q, chanClosed = c, workersOf = ws, resultChan = rc, errorChan = ec\<rparr>
     \<lparr>toSend = rest, fileChan = q @ [path], chanClosed = c, workersOf = ws, resultChan = rc, errorChan = ec\<rparr>"
  using pstep.send [of "\<lparr>toSend = path # rest, fileChan = q, chanClosed = c, workersOf = ws,
      resultChan = rc, errorChan = ec\<rparr>" path rest L os baseDir]
  by simp

lemma step_close:
  "pstep L os baseDir
     \<lparr>toSend = [], fileChan = q, chanClosed = False, workersOf = ws, resultChan = rc, errorChan = ec\<rparr>
     \<lparr>toSend = [], fileChan = q, chanClosed = True, workersOf = ws, resultChan = rc, errorChan = ec\<rparr>"
  using pstep.close [of "\<lparr>toSend = [], fileChan = q, chanClosed = False, workersOf = ws,
      resultChan = rc, errorChan = ec\<rparr>" L os baseDir]
  by simp

lemma step_receive:
  "i < length ws \<Longrightarrow> ws ! i = Idle \<Longrightarrow>
   pstep L os baseDir
     \<lparr>toSend = ts, fileChan = path # rest, chanClosed = c, workersOf = ws, resultChan = rc, errorChan = ec\<rparr>
     \<lparr>toSend = ts, fileChan = rest, chanClosed = c, workersOf = ws[i := Holding path], resultChan = rc,
      errorChan = ec\<rparr>"
  using pstep.receive [of i "\<lparr>toSend = ts, fileChan = path # rest, chanClosed = c, workersOf = ws,
      resultChan = rc, errorChan = ec\<rparr>" path rest L os baseDir]
  by simp

lemma step_result:
  "i < length ws \<Longrightarrow> ws ! i = Holding path \<Longrightarrow> ingested L os baseDir path \<Longrightarrow>
   pstep L os baseDir
     \<lparr>toSend = ts, fileChan = q, chanClosed = c, workersOf = ws, resultChan = rc, errorChan = ec\<rparr>
     \<lparr>toSend = ts, fileChan = q, chanClosed = c, workersOf = ws[i := Idle],
      resultChan = rc @ [recordOf L os baseDir path], errorChan = ec\<rparr>"
  using pstep.result [of i "\<lparr>toSend = ts, fileChan = q, chanClosed = c, workersOf = ws,
      resultChan = rc, errorChan = ec\<rparr>" path L os baseDir "recordOf L os baseDir path"]
  by (simp add: ingested_def recordOf_def prod_eq_iff)

lemma step_failure:
  "i < length ws \<Longrightarrow> ws ! i = Holding path \<Longrightarrow> snd (processSingleFile L os path baseDir) = Some err \<Longrightarrow>
   pstep L os baseDir
     \<lparr>toSend = ts, fileChan = q, chanClosed = c, workersOf = ws, resultChan = rc, errorChan = ec\<rparr>
     \<lparr>toSend = ts, fileChan = q, chanClosed = c, workersOf = ws[i := Idle],
      resultChan = rc, errorChan = ec @ [(path, err)]\<rparr>"
  using pstep.failure [of i "\<lparr>toSend = ts, fileChan = q, chanClosed = c, workersOf = ws,
      resultChan = rc, errorChan = ec\<rparr>" path L os baseDir "fst (processSingleFile L os path baseDir)" err]
  by (simp add: prod_eq_iff)

lemma step_leave:
  "i < length ws \<Longrightarrow> ws ! i = Idle \<Longrightarrow>
   pstep L os baseDir
     \<lparr>toSend = ts, fileChan = [], chanClosed = True, workersOf = ws, resultChan = rc, errorChan = ec\<rparr>
     \<lparr>toSend = ts, fileChan = [], chanClosed = True, workersOf = ws[i := Exited], resultChan = rc,
      errorChan = ec\<rparr>"
  using pstep.leave [of i "\<lparr>toSend = ts, fileChan = [], chanClosed = True, workersOf = ws,
      resultChan = rc, errorChan = ec\<rparr>" L os baseDir]
  by simp

lemma run_send:
  "(pstep L os baseDir)\<^sup>*\<^sup>*
     \<lparr>toSend = xs, fileChan = q, chanClosed = c, workersOf = ws, resultChan = rc, errorChan = ec\<rparr>
     \<lparr>toSend = [], fileChan = q @ xs, chanClosed = c, workersOf = ws, resultChan = rc, errorChan = ec\<rparr>"
proof (induction xs arbitrary: q)
  case Nil
  then show ?case by simp
next
  case (Cons x xs)
  from step_send [of L os baseDir x xs q c ws rc ec] Cons.IH [of "q @ [x]"]
  show ?case
    by (simp add: converse_rtranclp_into_rtranclp)
qed

lemma run_drain:
  assumes "0 < length ws" and "ws ! 0 = Idle"
  shows "\<exists>ec'. (pstep L os baseDir)\<^sup>*\<^sup>*
     \<lparr>toSend = ts, fileChan = xs, chanClosed = c, workersOf = ws, resultChan = rc, errorChan = ec\<rparr>
     \<lparr>toSend = ts, fileChan = [], chanClosed = c, workersOf = ws,
      resultChan = rc @ map (recordOf L os baseDir) (filter (ingested L os baseDir) xs), errorChan = ec'\<rparr>"
proof (induction xs arbitrary: rc ec)
  case Nil
  then show ?case by auto
next
  case (Cons x xs)
  let ?h = "ws[0 := Holding x]"
  have restore: "?h[0 := Idle] = ws"
    using assms by (simp add: list_update_same_conv)
  have h: "0 < length ?h" "?h ! 0 = Holding x"
    using assms by simp_all
  have r: "pstep L os baseDir
     \<lparr>toSend = ts, fileChan = x # xs, chanClosed = c, workersOf = ws, resultChan = rc, errorChan = ec\<rparr>
     \<lparr>toSend = ts, fileChan = xs, chanClosed = c, workersOf = ?h, resultChan = rc, errorChan = ec\<rparr>"
    using assms by (rule step_receive)
  show ?case
  proof (cases "ingested L os baseDir x")
    case True
    from step_result [OF h True, of ts xs c rc ec]
    have f: "pstep L os baseDir
       \<lparr>toSend = ts, fileChan = xs, chanClosed = c, workersOf = ?h, resultChan = rc, errorChan = ec\<rparr>
       \<lparr>toSend = ts, fileChan = xs, chanClosed = c, workersOf = ws,
        resultChan = rc @ [recordOf L os baseDir x], errorChan = ec\<rparr>"
      by (simp only: restore)
    from Cons.IH [of "rc @ [recordOf L os baseDir x]" ec] obtain ec' where
      "(pstep L os baseDir)\<^sup>*\<^sup>*
       \<lparr>toSend = ts, fileChan = xs, chanClosed = c, workersOf = ws,
        resultChan = rc @ [recordOf L os baseDir x], errorChan = ec\<rparr>
       \<lparr>toSend = ts, fileChan = [], chanClosed = c, workersOf = ws,
        resultChan = (rc @ [recordOf L os baseDir x]) @
          map (recordOf L os baseDir) (filter (ingested L os baseDir) xs), errorChan = ec'\<rparr>"
      by blast
    with r f have "(pstep L os baseDir)\<^sup>*\<^sup>*
       \<lparr>toSend = ts, fileChan = x # xs, chanClosed = c, workersOf = ws, resultChan = rc, errorChan = ec\<rparr>
       \<lparr>toSend = ts, fileChan = [], chanClosed = c, workersOf = ws,
        resultChan = (rc @ [recordOf L os baseDir x]) @
          map (recordOf L os baseDir) (filter (ingested L os baseDir) xs), errorChan = ec'\<rparr>"
      by (meson converse_rtranclp_into_rtranclp)
    with True show ?thesis
      by auto
  next
    case False
    from False obtain err where "snd (processSingleFile L os x baseDir) = Some err"
      by (auto simp: ingested_def)
    from step_failure [OF h this, of ts xs c rc ec] obtain ec1 where
      f: "pstep L os baseDir
       \<lparr>toSend = ts, fileChan = xs, chanClosed = c, workersOf = ?h, resultChan = rc, errorChan = ec\<rparr>
       \<lparr>toSend = ts, fileChan = xs, chanClosed = c, workersOf = ws, resultChan = rc, errorChan = ec1\<rparr>"
      by (auto simp only: restore)
    from Cons.IH [of rc ec1] obtain ec' where
      "(pstep L os baseDir)\<^sup>*\<^sup>*
       \<lparr>toSend = ts, fileChan = xs, chanClosed = c, workersOf = ws, resultChan = rc, errorChan = ec1\<rparr>
       \<lparr>toSend = ts, fileChan = [], chanClosed = c, workersOf = ws,
        resultChan = rc @ map (recordOf L os baseDir) (filter (ingested L os baseDir) xs),
        errorChan = ec'\<rparr>"
      by blast
    with r f have "(pstep L os baseDir)\<^sup>*\<^sup>*
       \<lparr>toSend = ts, fileChan = x # xs, chanClosed = c, workersOf = ws, resultChan = rc, errorChan = ec\<rparr>
       \<lparr>toSend = ts, fileChan = [], chanClosed = c, workersOf = ws,
        resultChan = rc @ map (recordOf L os baseDir) (filter (ingested L os baseDir) xs),
        errorChan = ec'\<rparr>"
      by (meson converse_rtranclp_into_rtranclp)
    with False show ?thesis
      by auto
  qed
qed

lemma run_leave:
  "(pstep L os baseDir)\<^sup>*\<^sup>*
     \<lparr>toSend = ts, fileChan = [], chanClosed = True, workersOf = replicate k Exited @ replicate m Idle,
      resultChan = rc, errorChan = ec\<rparr>
     \<lparr>toSend = ts, fileChan = [], chanClosed = True, workersOf = replicate (k + m) Exited,
      resultChan = rc, errorChan = ec\<rparr>"
proof (induction m arbitrary: k)
  case 0
  then show ?case by simp
next
  case (Suc m)
  let ?ws = "replicate k Exited @ replicate (Suc m) Idle"
  have "k < length ?ws" "?ws ! k = Idle"
    by (simp_all add: nth_append)
  from step_leave [OF this, of L os baseDir ts rc ec]
  have "pstep L os baseDir
     \<lparr>toSend = ts, fileChan = [], chanClosed = True, workersOf = ?ws, resultChan = rc, errorChan = ec\<rparr>
     \<lparr>toSend = ts, fileChan = [], chanClosed = True,
      workersOf = replicate (Suc k) Exited @ replicate m Idle, resultChan = rc, errorChan = ec\<rparr>"
    by (simp add: list_update_append replicate_app_Cons_same)
  with Suc.IH [of "Suc k"] show ?case
    by (simp add: converse_rtranclp_into_rtranclp)
qed

lemma sequential_is_a_parallel_run:
  assumes "1 \<le> workers"
  shows "processFilesParallel L os paths baseDir workers stats
           (processFilesSequential L os paths baseDir stats)"
proof -
  let ?n = "nat workers"
  let ?recs = "map (recordOf L os baseDir) (filter (ingested L os baseDir) paths)"
  have n: "0 < length (replicate ?n Idle)" "replicate ?n Idle ! 0 = Idle"
    using assms by simp_all
  have 1: "(pstep L os baseDir)\<^sup>*\<^sup>* (pinit paths workers)
      \<lparr>toSend = [], fileChan = paths, chanClosed = False, workersOf = replicate ?n Idle,
       resultChan = [], errorChan = []\<rparr>"
    using run_send [of L os baseDir paths "[]" False "replicate ?n Idle" "[]" "[]"]
    by (simp add: pinit_def)
  have 2: "pstep L os baseDir
      \<lparr>toSend = [], fileChan = paths, chanClosed = False, workersOf = replicate ?n Idle,
       resultChan = [], errorChan = []\<rparr>
      \<lparr>toSend = [], fileChan = paths, chanClosed = True, workersOf = replicate ?n Idle,
       resultChan = [], errorChan = []\<rparr>"
    by (rule step_close)
  from run_drain [OF n, of L os baseDir "[]" paths True "[]" "[]"] obtain ec where
    3: "(pstep L os baseDir)\<^sup>*\<^sup>*
      \<lparr>toSend = [], fileChan = paths, chanClosed = True, workersOf = replicate ?n Idle,
       resultChan = [], errorChan = []\<rparr>
      \<lparr>toSend = [], fileChan = [], chanClosed = True, workersOf = replicate ?n Idle,
       resultChan = ?recs, errorChan = ec\<rparr>"
    by auto
  have 4: "(pstep L os baseDir)\<^sup>*\<^sup>*
      \<lparr>toSend = [], fileChan = [], chanClosed = True, workersOf = replicate ?n Idle,
       resultChan = ?recs, errorChan = ec\<rparr>
      \<lparr>toSend = [], fileChan = [], chanClosed = True, workersOf = replicate ?n Exited,
       resultChan = ?recs, errorChan = ec\<rparr>"
    using run_leave [of L os baseDir "[]" 0 ?n ?recs ec] by simp
  let ?s = "\<lparr>toSend = [], fileChan = [], chanClosed = True, workersOf = replicate ?n Exited,
       resultChan = ?recs, errorChan = ec\<rparr>"
  from 1 2 3 4 have "(pstep L os baseDir)\<^sup>*\<^sup>* (pinit paths workers) ?s"
    by (meson rtranclp.rtrancl_into_rtrancl rtranclp_trans)
  moreover have "pfinal ?s"
    by (simp add: pfinal_def list_all_iff)
  moreover have "processFilesSequential L os paths baseDir stats = collect (resultChan ?s) [] stats"
    by (simp add: collect_eq processFilesSequential_eq)
  ultimately show ?thesis
    unfolding processFilesParallel_def by blast
qed

text \<open>
  C3. With at least one worker, parallel ingestion has a result (the sequential result is
  itself the result of one schedule), and whatever the schedule, the result of a completed
  parallel run has the same set of ingested paths as the sequential run over the same
  paths and file system: the same records as a multiset, in an order that may differ, and
  the same statistics. Every step of the interleaving decreases \<open>pmeasure\<close> and a state
  that is not final can always step (\<open>pstep_decreases\<close>, \<open>pstep_progress\<close>), so every
  schedule completes.
\<close>

theorem parallel_same_set:
  assumes "1 \<le> workers"
  shows "(\<exists>res. processFilesParallel L os paths baseDir workers stats res)
    \<and> (\<forall>res. processFilesParallel L os paths baseDir workers stats res \<longrightarrow>
          set (map Path (fst res)) = set (map Path (fst (processFilesSequential L os paths baseDir stats)))
        \<and> mset (fst res) = mset (fst (processFilesSequential L os paths baseDir stats))
        \<and> snd res = snd (processFilesSequential L os paths baseDir stats))"
proof (intro conjI allI impI)
  show "\<exists>res. processFilesParallel L os paths baseDir workers stats res"
    using sequential_is_a_parallel_run [OF assms] by blast
next
  fix res
  assume r: "processFilesParallel L os paths baseDir workers stats res"
  from parallel_result [OF r assms]
  show m: "mset (fst res) = mset (fst (processFilesSequential L os paths baseDir stats))"
    and "snd res = snd (processFilesSequential L os paths baseDir stats)"
    by simp_all
  from m have "set (fst res) = set (fst (processFilesSequential L os paths baseDir stats))"
    by (rule mset_eq_setD)
  then show "set (map Path (fst res)) = set (map Path (fst (processFilesSequential L os paths baseDir stats)))"
    by simp
qed

lemma wcost_update:
  "i < length ws \<Longrightarrow> (\<Sum>w\<leftarrow>ws[i := w']. wcost w) + wcost (ws ! i) = (\<Sum>w\<leftarrow>ws. wcost w) + wcost w'"
proof (induction ws arbitrary: i)
  case Nil
  then show ?case by simp
next
  case (Cons a ws)
  then show ?case
    by (cases i) (simp_all add: ac_simps)
qed

lemma pstep_decreases: "pstep L os baseDir s s' \<Longrightarrow> pmeasure s' < pmeasure s"
proof (induction rule: pstep.induct)
  case (receive i s path rest)
  with wcost_update [of i "workersOf s" "Holding path"] show ?case
    by (simp add: pmeasure_def)
next
  case (result i s path info)
  with wcost_update [of i "workersOf s" Idle] show ?case
    by (simp add: pmeasure_def)
next
  case (failure i s path info err)
  with wcost_update [of i "workersOf s" Idle] show ?case
    by (simp add: pmeasure_def)
next
  case (leave i s)
  with wcost_update [of i "workersOf s" Exited] show ?case
    by (simp add: pmeasure_def)
qed (simp_all add: pmeasure_def)

lemma pstep_progress:
  assumes "\<not> pfinal s"
  shows "\<exists>s'. pstep L os baseDir s s'"
proof (cases "chanClosed s")
  case False
  then show ?thesis
    by (cases "toSend s") (auto intro: pstep.close pstep.send)
next
  case True
  with assms obtain i where i: "i < length (workersOf s)" "workersOf s ! i \<noteq> Exited"
    by (auto simp: pfinal_def list_all_length)
  show ?thesis
  proof (cases "workersOf s ! i")
    case Idle
    with i True show ?thesis
      by (cases "fileChan s") (auto intro: pstep.leave pstep.receive)
  next
    case (Holding path)
    obtain info err where "processSingleFile L os path baseDir = (info, err)"
      by (cases "processSingleFile L os path baseDir")
    with i Holding show ?thesis
      by (cases err) (auto intro: pstep.result pstep.failure)
  next
    case Exited
    with i show ?thesis by simp
  qed
qed

lemma ex_records:
  "recordOf exampleLib exampleOS ''proj'' ''proj/a.go''
     = \<lparr>Path = ''proj/a.go'', Size = 50, Modified = ''2024-01-01 00:00:00'',
        Content = replicate 50 CHR ''a'', RelativePath = ''a.go''\<rparr>"
  "recordOf exampleLib exampleOS ''proj'' ''proj/c.txt''
     = \<lparr>Path = ''proj/c.txt'', Size = 50, Modified = ''2024-01-01 00:00:00'',
        Content = replicate 50 CHR ''c'', RelativePath = ''c.txt''\<rparr>"
  by (simp_all add: recordOf_def processSingleFile_def exampleOS_def exampleLib_def Let_def
      regular_def getRelativePath_def HasPrefix_def)

lemma ex_gone_error:
  "snd (processSingleFile exampleLib exampleOS ''proj/gone.go'' ''proj'') = Some (ErrRead ''proj/gone.go'')"
  by (simp add: processSingleFile_def exampleOS_def Let_def)

lemma example_parallel_run:
  "processFilesParallel exampleLib exampleOS [''proj/a.go'', ''proj/gone.go'', ''proj/c.txt''] ''proj'' 2
     zeroStats (exampleReordered, bump zeroStats exampleReordered)"
proof -
  let ?a = "''proj/a.go''" and ?g = "''proj/gone.go''" and ?c = "''proj/c.txt''"
  let ?ra = "recordOf exampleLib exampleOS ''proj'' ?a"
  let ?rc = "recordOf exampleLib exampleOS ''proj'' ?c"
  let ?step = "pstep exampleLib exampleOS ''proj''"
  have 1: "?step\<^sup>*\<^sup>* (pinit [?a, ?g, ?c] 2)
      \<lparr>toSend = [], fileChan = [?a, ?g, ?c], chanClosed = False, workersOf = [Idle, Idle],
       resultChan = [], errorChan = []\<rparr>"
    using run_send [of exampleLib exampleOS "''proj''" "[?a, ?g, ?c]" "[]" False "[Idle, Idle]" "[]" "[]"]
    by (simp add: pinit_def numeral_2_eq_2)
  have 2: "?step
      \<lparr>toSend = [], fileChan = [?a, ?g, ?c], chanClosed = False, workersOf = [Idle, Idle],
       resultChan = [], errorChan = []\<rparr>
      \<lparr>toSend = [], fileChan = [?a, ?g, ?c], chanClosed = True, workersOf = [Idle, Idle],
       resultChan = [], errorChan = []\<rparr>"
    by (rule step_close)
  have 3: "?step
      \<lparr>toSend = [], fileChan = [?a, ?g, ?c], chanClosed = True, workersOf = [Idle, Idle],
       resultChan = [], errorChan = []\<rparr>
      \<lparr>toSend = [], fileChan = [?g, ?c], chanClosed = True, workersOf = [Holding ?a, Idle],
       resultChan = [], errorChan = []\<rparr>"
    using step_receive [of 0 "[Idle, Idle]" exampleLib exampleOS "''proj''" "[]" ?a "[?g, ?c]" True "[]" "[]"]
    by simp
  have 4: "?step
      \<lparr>toSend = [], fileChan = [?g, ?c], chanClosed = True, workersOf = [Holding ?a, Idle],
       resultChan = [], errorChan = []\<rparr>
      \<lparr>toSend = [], fileChan = [?c], chanClosed = True, workersOf = [Holding ?a, Holding ?g],
       resultChan = [], errorChan = []\<rparr>"
    using step_receive [of 1 "[Holding ?a, Idle]" exampleLib exampleOS "''proj''" "[]" ?g "[?c]" True "[]" "[]"]
    by simp
  have 5: "?step
      \<lparr>toSend = [], fileChan = [?c], chanClosed = True, workersOf = [Holding ?a, Holding ?g],
       resultChan = [], errorChan = []\<rparr>
      \<lparr>toSend = [], fileChan = [?c], chanClosed = True, workersOf = [Holding ?a, Idle],
       resultChan = [], errorChan = [(?g, ErrRead ?g)]\<rparr>"
    using step_failure [of 1 "[Holding ?a, Holding ?g]" ?g exampleLib exampleOS "''proj''" "ErrRead ?g"
        "[]" "[?c]" True "[]" "[]"] ex_gone_error
    by simp
  have 6: "?step
      \<lparr>toSend = [], fileChan = [?c], chanClosed = True, workersOf = [Holding ?a, Idle],
       resultChan = [], errorChan = [(?g, ErrRead ?g)]\<rparr>
      \<lparr>toSend = [], fileChan = [], chanClosed = True, workersOf = [Holding ?a, Holding ?c],
       resultChan = [], errorChan = [(?g, ErrRead ?g)]\<rparr>"
    using step_receive [of 1 "[Holding ?a, Idle]" exampleLib exampleOS "''proj''" "[]" ?c "[]" True "[]"
        "[(?g, ErrRead ?g)]"]
    by simp
  have 7: "?step
      \<lparr>toSend = [], fileChan = [], chanClosed = True, workersOf = [Holding ?a, Holding ?c],
       resultChan = [], errorChan = [(?g, ErrRead ?g)]\<rparr>
      \<lparr>toSend = [], fileChan = [], chanClosed = True, workersOf = [Holding ?a, Idle],
       resultChan = [?rc], errorChan = [(?g, ErrRead ?g)]\<rparr>"
    using step_result [of 1 "[Holding ?a, Holding ?c]" ?c exampleLib exampleOS "''proj''" "[]" "[]" True "[]"
        "[(?g, ErrRead ?g)]"] ex_ingested
    by simp
  have 8: "?step
      \<lparr>toSend = [], fileChan = [], chanClosed = True, workersOf = [Holding ?a, Idle],
       resultChan = [?rc], errorChan = [(?g, ErrRead ?g)]\<rparr>
      \<lparr>toSend = [], fileChan = [], chanClosed = True, workersOf = [Idle, Idle],
       resultChan = [?rc, ?ra], errorChan = [(?g, ErrRead ?g)]\<rparr>"
    using step_result [of 0 "[Holding ?a, Idle]" ?a exampleLib exampleOS "''proj''" "[]" "[]" True "[?rc]"
        "[(?g, ErrRead ?g)]"] ex_ingested
    by simp
  have 9: "?step\<^sup>*\<^sup>*
      \<lparr>toSend = [], fileChan = [], chanClosed = True, workersOf = [Idle, Idle],
       resultChan = [?rc, ?ra], errorChan = [(?g, ErrRead ?g)]\<rparr>
      \<lparr>toSend = [], fileChan = [], chanClosed = True, workersOf = [Exited, Exited],
       resultChan = [?rc, ?ra], errorChan = [(?g, ErrRead ?g)]\<rparr>"
    using run_leave [of exampleLib exampleOS "''proj''" "[]" 0 2 "[?rc, ?ra]" "[(?g, ErrRead ?g)]"]
    by (simp add: numeral_2_eq_2)
  let ?s = "\<lparr>toSend = [], fileChan = [], chanClosed = True, workersOf = [Exited, Exited],
       resultChan = [?rc, ?ra], errorChan = [(?g, ErrRead ?g)]\<rparr>"
  from 1 2 3 4 5 6 7 8 9 have "?step\<^sup>*\<^sup>* (pinit [?a, ?g, ?c] 2) ?s"
    by (meson rtranclp.rtrancl_into_rtrancl rtranclp_trans)
  moreover have "pfinal ?s"
    by (simp add: pfinal_def)
  moreover have "(exampleReordered, bump zeroStats exampleReordered) = collect (resultChan ?s) [] zeroStats"
    by (simp add: collect_eq exampleReordered_def)
  ultimately show ?thesis
    unfolding processFilesParallel_def by blast
qed

theorem parallel_same_set_witness:
  "processFilesParallel exampleLib exampleOS [''proj/a.go'', ''proj/gone.go'', ''proj/c.txt''] ''proj'' 2
     zeroStats (exampleReordered, bump zeroStats exampleReordered)
   \<and> map Path exampleReordered = [''proj/c.txt'', ''proj/a.go'']
   \<and> map Path (fst (processFilesSequential exampleLib exampleOS
        [''proj/a.go'', ''proj/gone.go'', ''proj/c.txt''] ''proj'' zeroStats)) = [''proj/a.go'', ''proj/c.txt'']
   \<and> set (map Path exampleReordered) = set (map Path (fst (processFilesSequential exampleLib exampleOS
        [''proj/a.go'', ''proj/gone.go'', ''proj/c.txt''] ''proj'' zeroStats)))"
proof -
  have w: "(1::int) \<le> 2"
    by simp
  from parallel_same_set [OF w, of exampleLib exampleOS "[''proj/a.go'', ''proj/gone.go'', ''proj/c.txt'']"
      "''proj''" zeroStats] example_parallel_run
  have "set (map Path (fst (exampleReordered, bump zeroStats exampleReordered)))
      = set (map Path (fst (processFilesSequential exampleLib exampleOS
        [''proj/a.go'', ''proj/gone.go'', ''proj/c.txt''] ''proj'' zeroStats)))"
    by blast
  moreover have "map Path exampleReordered = [''proj/c.txt'', ''proj/a.go'']"
    by (simp add: exampleReordered_def ex_records)
  moreover have "map Path (fst (processFilesSequential exampleLib exampleOS
        [''proj/a.go'', ''proj/gone.go'', ''proj/c.txt''] ''proj'' zeroStats)) = [''proj/a.go'', ''proj/c.txt'']"
    by (simp add: processFilesSequential_eq ex_ingested ex_records)
  ultimately show ?thesis
    using example_parallel_run by simp
qed

section \<open>Properties of the discovery walker\<close>

lemma walkFn_err [simp]:
  "walkFn L config ex inc path info (Some e) st = (None, st)"
  by (cases st) (simp add: walkFn_def)

lemma walkFn_dir:
  "fiIsDir info \<Longrightarrow>
   walkFn L config ex inc path (Some info) None (filePaths, stats) =
     (if ExcludeHidden config \<and> isHidden (fiName info) then Some SkipDir else None,
      (filePaths, stats\<lparr>Directories := Directories stats + 1\<rparr>))"
  by (simp add: walkFn_def Let_def)

lemma walkFn_file:
  "\<not> fiIsDir info \<Longrightarrow>
   walkFn L config ex inc path (Some info) None (filePaths, stats) =
     (None, (if shouldProcessFile L path info config ex inc then filePaths @ [path] else filePaths, stats))"
  by (simp add: walkFn_def)


lemma walk_count:
  "ExcludeHidden config \<Longrightarrow>
   \<exists>r filePaths'. walk (walkFn L config ex inc) path node (filePaths, stats) =
     (r, (filePaths', stats\<lparr>Directories := Directories stats + word_of_nat (countDirs node)\<rparr>))
     \<and> (r = None \<or> r = Some SkipDir)"
  "ExcludeHidden config \<Longrightarrow>
   \<exists>filePaths'. walkNames (walkFn L config ex inc) path names (filePaths, stats) =
     (None, (filePaths', stats\<lparr>Directories := Directories stats + word_of_nat (sum_list (map countDirs names))\<rparr>))"
proof (induction "walkFn L config ex inc" path node "(filePaths, stats)"
    and "walkFn L config ex inc" path names "(filePaths, stats)"
    arbitrary: filePaths stats and filePaths stats rule: walk_walkNames.induct)
  case (1 path name)
  then show ?case by simp
next
  case (2 path info)
  then show ?case
    by (simp add: walkFn_file)
next
  case (3 path info names)
  show ?case
  proof (cases "fiIsDir info")
    case False
    then show ?thesis
      by (simp add: walkFn_file)
  next
    case True
    show ?thesis
    proof (cases "isHidden (fiName info)")
      case h: True
      with True "3.prems" show ?thesis
        by (simp add: walkFn_dir)
    next
      case h: False
      with True have f: "walkFn L config ex inc path (Some info) None (filePaths, stats)
          = (None, (filePaths, stats\<lparr>Directories := Directories stats + 1\<rparr>))"
        by (simp add: walkFn_dir)
      from "3.hyps" [of None filePaths "stats\<lparr>Directories := Directories stats + 1\<rparr>"] f True "3.prems"
      obtain filePaths' where "walkNames (walkFn L config ex inc) path names
          (filePaths, stats\<lparr>Directories := Directories stats + 1\<rparr>) =
          (None, (filePaths', stats\<lparr>Directories := Directories stats + 1 +
              word_of_nat (sum_list (map countDirs names))\<rparr>))"
        by auto
      with True h f show ?thesis
        by (simp add: add.assoc)
    qed
  qed
next
  case (4 path)
  then show ?case by simp
next
  case (5 path name rest)
  from "5.hyps"(1) [of None filePaths stats] "5.prems"
  show ?case by simp
next
  case (6 path info names rest)
  from "6.hyps"(1) [OF "6.prems"] obtain r fp1 where
    w: "walk (walkFn L config ex inc) (Join path (fiName info)) (Node info names) (filePaths, stats)
      = (r, (fp1, stats\<lparr>Directories := Directories stats + word_of_nat (countDirs (Node info names))\<rparr>))"
    and r: "r = None \<or> r = Some SkipDir"
    by blast
  have d: "r = Some SkipDir \<Longrightarrow> fiIsDir info"
  proof (rule ccontr)
    assume "r = Some SkipDir" "\<not> fiIsDir info"
    with w show False
      by (cases names) (simp_all add: walkFn_file)
  qed
  let ?st1 = "stats\<lparr>Directories := Directories stats + word_of_nat (countDirs (Node info names))\<rparr>"
  from r show ?case
  proof
    assume n: "r = None"
    from "6.hyps"(2) [of None fp1 ?st1] w n "6.prems" obtain fp2 where
      "walkNames (walkFn L config ex inc) path rest (fp1, ?st1) =
        (None, (fp2, ?st1\<lparr>Directories := Directories ?st1 + word_of_nat (sum_list (map countDirs rest))\<rparr>))"
      by auto
    with w n show ?thesis
      by (simp add: add.assoc)
  next
    assume n: "r = Some SkipDir"
    with d have dir: "fiIsDir info" by simp
    from "6.hyps"(3) [of "Some SkipDir" fp1 ?st1 SkipDir] w n "6.prems" dir obtain fp2 where
      "walkNames (walkFn L config ex inc) path rest (fp1, ?st1) =
        (None, (fp2, ?st1\<lparr>Directories := Directories ?st1 + word_of_nat (sum_list (map countDirs rest))\<rparr>))"
      by auto
    with w n dir show ?thesis
      by (simp add: add.assoc)
  qed
qed
















lemma walk_hidden_dir:
  "ExcludeHidden config \<Longrightarrow> fiIsDir info \<Longrightarrow> isHidden (fiName info) \<Longrightarrow>
   walk (walkFn L config ex inc) path (Node info (Some names)) (filePaths, stats)
     = (Some SkipDir, (filePaths, stats\<lparr>Directories := Directories stats + 1\<rparr>))"
  by (simp add: walkFn_dir)






text \<open>
  C10, as amended. With \<open>ExcludeHidden\<close> set, a hidden directory whose entries could be
  read increments \<open>Directories\<close> before the prune check: the callback returns \<open>SkipDir\<close> with
  the counter one higher, and so does the walk of that directory. Over a whole walk
  \<open>Directories\<close> grows by the number of directories the callback is called on without an
  error, pruned hidden ones included (\<open>countDirs\<close>).
\<close>

theorem hidden_directory_counted:
  assumes "ExcludeHidden config"
  shows "(fiIsDir info \<and> isHidden (fiName info) \<longrightarrow>
       walkFn L config ex inc path (Some info) None (filePaths, stats)
         = (Some SkipDir, (filePaths, stats\<lparr>Directories := Directories stats + 1\<rparr>))
       \<and> walk (walkFn L config ex inc) path (Node info (Some names)) (filePaths, stats)
         = (Some SkipDir, (filePaths, stats\<lparr>Directories := Directories stats + 1\<rparr>)))
    \<and> Directories (snd (snd (walk (walkFn L config ex inc) path node (filePaths, stats))))
        = Directories stats + word_of_nat (countDirs node)"
proof -
  have 1: "walkFn L config ex inc path (Some info) None (filePaths, stats)
         = (Some SkipDir, (filePaths, stats\<lparr>Directories := Directories stats + 1\<rparr>))"
    if "fiIsDir info \<and> isHidden (fiName info)"
    using that assms by (simp add: walkFn_dir)
  have 2: "walk (walkFn L config ex inc) path (Node info (Some names)) (filePaths, stats)
         = (Some SkipDir, (filePaths, stats\<lparr>Directories := Directories stats + 1\<rparr>))"
    if "fiIsDir info \<and> isHidden (fiName info)"
    using that assms by (simp add: walkFn_dir)
  from walk_count(1) [OF assms, of L ex inc path node filePaths stats]
  have 3: "Directories (snd (snd (walk (walkFn L config ex inc) path node (filePaths, stats))))
        = Directories stats + word_of_nat (countDirs node)"
    by auto
  from 1 2 3 show ?thesis
    by blast
qed

theorem hidden_directory_counted_witness:
  "Directories (snd (snd (walk (walkFn exampleLib exampleConfig None None) ''proj/.hidden''
        (Node (directory ''.hidden'') (Some [Node (regular ''b.go'' 50) None])) ([], zeroStats)))) = 1
   \<and> Directories (snd (snd (walk (walkFn exampleLib exampleConfig None None) ''proj''
        (exampleTree ''proj'') ([], zeroStats)))) = 2"
proof -
  have h: "ExcludeHidden exampleConfig"
    by (simp add: exampleConfig_def)
  have d: "fiIsDir (directory ''.hidden'') \<and> isHidden (fiName (directory ''.hidden''))"
    by (simp add: directory_def isHidden_def HasPrefix_def)
  have c: "countDirs (exampleTree ''proj'') = 2"
    by (simp add: exampleTree_def directory_def regular_def isHidden_def HasPrefix_def)
  from hidden_directory_counted [OF h, where L = exampleLib and ex = None and inc = None
      and info = "directory ''.hidden''" and path = "''proj/.hidden''"
      and names = "[Node (regular ''b.go'' 50) None]" and filePaths = "[]" and stats = zeroStats] d
  have "walk (walkFn exampleLib exampleConfig None None) ''proj/.hidden''
        (Node (directory ''.hidden'') (Some [Node (regular ''b.go'' 50) None])) ([], zeroStats)
     = (Some SkipDir, ([], zeroStats\<lparr>Directories := Directories zeroStats + 1\<rparr>))"
    by blast
  moreover from hidden_directory_counted [OF h, where L = exampleLib and ex = None and inc = None
      and path = "''proj''" and node = "exampleTree ''proj''" and filePaths = "[]" and stats = zeroStats] c
  have "Directories (snd (snd (walk (walkFn exampleLib exampleConfig None None) ''proj''
        (exampleTree ''proj'') ([], zeroStats)))) = Directories zeroStats + 2"
    by simp
  ultimately show ?thesis
    by (simp add: zeroStats_def)
qed

text \<open>
  The claim as stated fails for a hidden directory whose entries cannot be read: the
  callback is called with the read error, returns at its first check, and \<open>Directories\<close>
  stays as it was.
\<close>

theorem unreadable_hidden_directory_not_counted:
  "fiIsDir (directory ''.git'') \<and> isHidden (fiName (directory ''.git'')) \<and> ExcludeHidden exampleConfig
   \<and> walk (walkFn exampleLib exampleConfig None None) ''proj/.git'' (Node (directory ''.git'') None)
        ([], zeroStats) = (None, ([], zeroStats))"
  by (simp add: directory_def isHidden_def HasPrefix_def exampleConfig_def)

section \<open>Properties of the run\<close>








lemma compilePattern_ok:
  "\<not> badPattern L pattern \<Longrightarrow> \<exists>re. compilePattern L pattern = Inr re"
  by (auto simp: compilePattern_def badPattern_def split: option.splits)

lemma discover_empty:
  assumes "validConfig L os flags config"
    and "Tree os (InputDir config) = Node info (Some [])" and "fiIsDir info"
  shows "discover L os flags config = Inr ([], zeroStats\<lparr>Directories := 1\<rparr>)"
proof -
  from assms(1) obtain exRe incRe where
    "compilePattern L (excludePattern flags) = Inr exRe" "compilePattern L (includePattern flags) = Inr incRe"
    using compilePattern_ok unfolding validConfig_def by blast
  with assms show ?thesis
    by (simp add: discover_def validConfig_def Walk_def walkFn_dir zeroStats_def)
qed

lemma parallel_empty:
  assumes "processFilesParallel L os [] baseDir workers stats res"
  shows "res = ([], stats)"
proof -
  from assms obtain s where s: "(pstep L os baseDir)\<^sup>*\<^sup>* (pinit [] workers) s"
    and res: "res = collect (resultChan s) [] stats"
    by (auto simp: processFilesParallel_def)
  from s have "pinv L os baseDir [] workers s"
    by (rule pinv_reachable)
  then have "resultChan s = []"
    by (simp add: pinv_def)
  with res show ?thesis
    by simp
qed

lemma parallel_empty_run: "processFilesParallel L os [] baseDir workers stats ([], stats)"
proof -
  let ?n = "nat workers"
  have 1: "pstep L os baseDir (pinit [] workers)
      \<lparr>toSend = [], fileChan = [], chanClosed = True, workersOf = replicate ?n Idle,
       resultChan = [], errorChan = []\<rparr>"
    using step_close [of L os baseDir "[]" "replicate ?n Idle" "[]" "[]"]
    by (simp add: pinit_def)
  have 2: "(pstep L os baseDir)\<^sup>*\<^sup>*
      \<lparr>toSend = [], fileChan = [], chanClosed = True, workersOf = replicate ?n Idle,
       resultChan = [], errorChan = []\<rparr>
      \<lparr>toSend = [], fileChan = [], chanClosed = True, workersOf = replicate ?n Exited,
       resultChan = [], errorChan = []\<rparr>"
    using run_leave [of L os baseDir "[]" 0 ?n "[]" "[]"] by simp
  let ?s = "\<lparr>toSend = [], fileChan = [], chanClosed = True, workersOf = replicate ?n Exited,
       resultChan = [], errorChan = []\<rparr>"
  from 1 2 have "(pstep L os baseDir)\<^sup>*\<^sup>* (pinit [] workers) ?s"
    by (meson converse_rtranclp_into_rtranclp)
  moreover have "pfinal ?s"
    by (simp add: pfinal_def list_all_iff)
  moreover have "([], stats) = collect (resultChan ?s) [] stats"
    by simp
  ultimately show ?thesis
    unfolding processFilesParallel_def by blast
qed

lemma writeTextOutput_empty:
  "writeTextOutput os [] stats =
     (textHeader os stats @ textFooter stats (lenBytes (textHeader os stats)),
      lenBytes (textHeader os stats) + lenBytes (textFooter stats (lenBytes (textHeader os stats))),
      None)"
  by (simp add: writeTextOutput_def Let_def)

lemma writeMarkdownOutput_empty:
  "writeMarkdownOutput os [] stats =
     (mdHeader os stats @ mdFooter stats, lenBytes (mdHeader os stats) + lenBytes (mdFooter stats), None)"
  by (simp add: writeMarkdownOutput_def Let_def)

lemma finish_empty_text:
  assumes "\<not> dryRun flags" and "Create os (OutputFile config)" and "textFormat L (outputFormat flags)"
  shows "finish L E os flags config ([], zeroStats\<lparr>Directories := 1\<rparr>) =
     Completed ((emptyDirStats os)\<lparr>OutputSize := lenBytes (emptyTextArtifact os)\<rparr>)
       (Some \<lparr>wPath = OutputFile config, wGzip = compress flags, wData = emptyTextArtifact os\<rparr>)"
  using assms
  by (simp add: finish_def writeOutput_def textFormat_def writeTextOutput_empty Let_def
      emptyDirStats_def emptyTextArtifact_def lenBytes_def)

lemma finish_empty_markdown:
  assumes "\<not> dryRun flags" and "Create os (OutputFile config)" and "markdownFormat L (outputFormat flags)"
  shows "finish L E os flags config ([], zeroStats\<lparr>Directories := 1\<rparr>) =
     Completed ((emptyDirStats os)\<lparr>OutputSize := lenBytes (emptyMarkdownArtifact os)\<rparr>)
       (Some \<lparr>wPath = OutputFile config, wGzip = compress flags, wData = emptyMarkdownArtifact os\<rparr>)"
  using assms
  by (auto simp: finish_def writeOutput_def markdownFormat_def writeMarkdownOutput_empty Let_def
      emptyDirStats_def emptyMarkdownArtifact_def lenBytes_def)

lemma mainRun_empty:
  assumes "discover L os flags config = Inr ([], stats)"
  shows "mainRun L E os flags config out \<longleftrightarrow> out = finish L E os flags config ([], stats)"
proof
  assume "mainRun L E os flags config out"
  then show "out = finish L E os flags config ([], stats)"
    using assms
    by cases (auto simp: processFilesSequential_def dest: parallel_empty)
next
  assume o: "out = finish L E os flags config ([], stats)"
  show "mainRun L E os flags config out"
  proof (cases "1 < parallel flags")
    case True
    from mainRun.parallel [OF assms True parallel_empty_run, of E] o show ?thesis
      by simp
  next
    case False
    from mainRun.sequential [OF assms False, of E] o show ?thesis
      by (simp add: processFilesSequential_def)
  qed
qed

text \<open>
  C8. For a configuration that passes the validations and an input root that is a
  directory without entries, the run does not fail, with any number of workers: its one
  outcome is \<open>Completed\<close> with \<open>FilesProcessed = 0\<close> and \<open>Directories = 1\<close>. In a dry run
  nothing is written; otherwise, when the output file can be created, the file written
  holds the header followed by the footer and nothing else, for the text serializer and
  for the Markdown serializer.
\<close>

theorem empty_directory_run:
  assumes "validConfig L os flags config"
    and "Tree os (InputDir config) = Node info (Some [])" and "fiIsDir info"
  shows "(dryRun flags \<longrightarrow>
      (mainRun L E os flags config out \<longleftrightarrow> out = Completed (emptyDirStats os) None))
    \<and> (\<not> dryRun flags \<and> Create os (OutputFile config) \<and> textFormat L (outputFormat flags) \<longrightarrow>
      (mainRun L E os flags config out \<longleftrightarrow>
         out = Completed ((emptyDirStats os)\<lparr>OutputSize := lenBytes (emptyTextArtifact os)\<rparr>)
           (Some \<lparr>wPath = OutputFile config, wGzip = compress flags, wData = emptyTextArtifact os\<rparr>)))
    \<and> (\<not> dryRun flags \<and> Create os (OutputFile config) \<and> markdownFormat L (outputFormat flags) \<longrightarrow>
      (mainRun L E os flags config out \<longleftrightarrow>
         out = Completed ((emptyDirStats os)\<lparr>OutputSize := lenBytes (emptyMarkdownArtifact os)\<rparr>)
           (Some \<lparr>wPath = OutputFile config, wGzip = compress flags, wData = emptyMarkdownArtifact os\<rparr>)))
    \<and> FilesProcessed (emptyDirStats os) = 0 \<and> Directories (emptyDirStats os) = 1
    \<and> emptyTextArtifact os = textHeader os (emptyDirStats os) @
         textFooter (emptyDirStats os) (lenBytes (textHeader os (emptyDirStats os)))
    \<and> emptyMarkdownArtifact os = mdHeader os (emptyDirStats os) @ mdFooter (emptyDirStats os)"
proof -
  from discover_empty [OF assms]
  have m: "mainRun L E os flags config out \<longleftrightarrow>
      out = finish L E os flags config ([], zeroStats\<lparr>Directories := 1\<rparr>)"
    by (rule mainRun_empty)
  have d: "finish L E os flags config ([], zeroStats\<lparr>Directories := 1\<rparr>) = Completed (emptyDirStats os) None"
    if "dryRun flags"
    using that by (simp add: finish_def emptyDirStats_def)
  have s: "FilesProcessed (emptyDirStats os) = 0 \<and> Directories (emptyDirStats os) = 1"
    by (simp add: emptyDirStats_def zeroStats_def)
  from m d s finish_empty_text [of flags os config L E] finish_empty_markdown [of flags os config L E]
  show ?thesis
    by (simp add: emptyTextArtifact_def emptyMarkdownArtifact_def)
qed

lemma natStr_digit: "n < 10 \<Longrightarrow> natStr n = [digit n]"
  by simp

lemma digits:
  "digit 0 = CHR ''0''" "digit 1 = CHR ''1''" "digit 2 = CHR ''2''" "digit 3 = CHR ''3''"
  "digit 4 = CHR ''4''" "digit 5 = CHR ''5''" "digit 6 = CHR ''6''" "digit 7 = CHR ''7''"
  "digit 8 = CHR ''8''" "digit 9 = CHR ''9''" "digit (Suc 0) = CHR ''1''"
  by code_simp+

lemma example_strings:
  "intStr 0 = ''0''" "intStr 1 = ''1''" "formatBytes 0 = ''0 B''" "formatBytes 89 = ''89 B''"
  "fmtFloat 2 (F64 3 2) = ''0.75''"
  by (simp_all add: intStr_def formatBytes_def digits roundHalfEven_def padZeros_def Let_def)

lemma emptyTextArtifact_example:
  "emptyTextArtifact emptyDirOS =
     ''Pecel Output\<newline>Generated: 2024-01-01 00:00:00\<newline>Files: 0 | Directories: 1 | Total Size: 0 B\<newline>\<newline>'' @
     ''\<newline>\<newline>=== SUMMARY ===\<newline>Files processed: 0\<newline>Directories scanned: 1\<newline>'' @
     ''Total input size: 0 B\<newline>Output size: 89 B\<newline>Processing time: 0.75 seconds\<newline>''"
proof -
  have h: "textHeader emptyDirOS (emptyDirStats emptyDirOS) =
      ''Pecel Output\<newline>Generated: 2024-01-01 00:00:00\<newline>Files: 0 | Directories: 1 | Total Size: 0 B\<newline>\<newline>''"
    by (simp add: textHeader_def emptyDirStats_def zeroStats_def emptyDirOS_def example_strings)
  have l: "lenBytes ''Pecel Output\<newline>Generated: 2024-01-01 00:00:00\<newline>Files: 0 | Directories: 1 | Total Size: 0 B\<newline>\<newline>'' = 89"
    by (simp add: lenBytes_def)
  show ?thesis
    unfolding emptyTextArtifact_def h l
    by (simp add: textFooter_def emptyDirStats_def zeroStats_def emptyDirOS_def example_strings
        del: fmtFloat.simps)
qed

lemma textFormat_text: "textFormat exampleLib ''text''"
proof -
  have "isASCII ''text''"
    by (simp add: isASCII_def byte_def)
  moreover have "map lowerASCII ''text'' = ''text''"
    by (simp add: lowerASCII_def byte_def)
  ultimately show ?thesis
    by (simp add: textFormat_def ToLower_def)
qed

theorem empty_directory_run_witness:
  "mainRun exampleLib exampleEncoders emptyDirOS (textFlags 1) (exampleConfig\<lparr>InputDir := ''empty''\<rparr>)
     (Completed \<lparr>FilesProcessed = 0, Directories = 1, TotalBytes = 0, Duration = F64 3 2, OutputSize = 219\<rparr>
        (Some \<lparr>wPath = ''out/combined.txt'', wGzip = False,
           wData = ''Pecel Output\<newline>Generated: 2024-01-01 00:00:00\<newline>Files: 0 | Directories: 1 | Total Size: 0 B\<newline>\<newline>'' @
             ''\<newline>\<newline>=== SUMMARY ===\<newline>Files processed: 0\<newline>Directories scanned: 1\<newline>'' @
             ''Total input size: 0 B\<newline>Output size: 89 B\<newline>Processing time: 0.75 seconds\<newline>''\<rparr>))
   \<and> mainRun exampleLib exampleEncoders emptyDirOS (textFlags 4) (exampleConfig\<lparr>InputDir := ''empty''\<rparr>)
     (Completed \<lparr>FilesProcessed = 0, Directories = 1, TotalBytes = 0, Duration = F64 3 2, OutputSize = 219\<rparr>
        (Some \<lparr>wPath = ''out/combined.txt'', wGzip = False,
           wData = ''Pecel Output\<newline>Generated: 2024-01-01 00:00:00\<newline>Files: 0 | Directories: 1 | Total Size: 0 B\<newline>\<newline>'' @
             ''\<newline>\<newline>=== SUMMARY ===\<newline>Files processed: 0\<newline>Directories scanned: 1\<newline>'' @
             ''Total input size: 0 B\<newline>Output size: 89 B\<newline>Processing time: 0.75 seconds\<newline>''\<rparr>))"
proof -
  let ?config = "exampleConfig\<lparr>InputDir := ''empty''\<rparr>"
  have dir: "Dir ''out/combined.txt'' = ''out''"
    by (simp add: Dir_def Clean_def Let_def)
  have ext: "validateExtensions exampleLib (joinWith '','' (Extensions ?config)) = None"
    by (simp add: validateExtensions_def exampleConfig_def exampleLib_def HasPrefix_def)
  have v: "validConfig exampleLib emptyDirOS (textFlags w) ?config" for w
    using ext
    by (simp add: validConfig_def validateDirectory_def validateFilePath_def badPattern_def
        emptyDirOS_def exampleConfig_def textFlags_def dir directory_def Let_def)
  have t: "Tree emptyDirOS (InputDir ?config) = Node (directory ''empty'') (Some [])"
    "fiIsDir (directory ''empty'')"
    by (simp_all add: emptyDirOS_def directory_def)
  have o: "\<not> dryRun (textFlags w)" "Create emptyDirOS (OutputFile ?config)"
    "textFormat exampleLib (outputFormat (textFlags w))" for w
    using textFormat_text by (simp_all add: textFlags_def emptyDirOS_def exampleConfig_def)
  have s: "(emptyDirStats emptyDirOS)\<lparr>OutputSize := lenBytes (emptyTextArtifact emptyDirOS)\<rparr>
      = \<lparr>FilesProcessed = 0, Directories = 1, TotalBytes = 0, Duration = F64 3 2, OutputSize = 219\<rparr>"
    unfolding emptyTextArtifact_example
    by (simp add: emptyDirStats_def zeroStats_def emptyDirOS_def lenBytes_def)
  have p: "OutputFile ?config = ''out/combined.txt''" "compress (textFlags w) = False" for w
    by (simp_all add: exampleConfig_def textFlags_def)
  from empty_directory_run [OF v [of 1] t, where E = exampleEncoders] o(1) [of 1] o(2) o(3) [of 1]
  have 1: "mainRun exampleLib exampleEncoders emptyDirOS (textFlags 1) ?config
      (Completed ((emptyDirStats emptyDirOS)\<lparr>OutputSize := lenBytes (emptyTextArtifact emptyDirOS)\<rparr>)
        (Some \<lparr>wPath = OutputFile ?config, wGzip = compress (textFlags 1),
           wData = emptyTextArtifact emptyDirOS\<rparr>))"
    by blast
  from empty_directory_run [OF v [of 4] t, where E = exampleEncoders] o(1) [of 4] o(2) o(3) [of 4]
  have 2: "mainRun exampleLib exampleEncoders emptyDirOS (textFlags 4) ?config
      (Completed ((emptyDirStats emptyDirOS)\<lparr>OutputSize := lenBytes (emptyTextArtifact emptyDirOS)\<rparr>)
        (Some \<lparr>wPath = OutputFile ?config, wGzip = compress (textFlags 4),
           wData = emptyTextArtifact emptyDirOS\<rparr>))"
    by blast
  note 1 [unfolded s, unfolded p emptyTextArtifact_example] 2 [unfolded s, unfolded p emptyTextArtifact_example]
  then show ?thesis
    by simp
qed

section \<open>Properties of the serializers\<close>

lemma toValidUTF8_Nil [simp]: "toValidUTF8 [] = []"
  by (subst toValidUTF8.simps) simp


lemma sint_round_trip: "word_of_int (sint (x :: int64)) = x"
  by simp

lemma fileInfoJSON_keys:
  "map_of (case fileInfoJSON info of JObject kv \<Rightarrow> kv | _ \<Rightarrow> []) ''relative_path''
     = Some (JString (toValidUTF8 (RelativePath info)))"
  by (simp add: fileInfoJSON_def jsonString_def)

















section \<open>Further facts about the model\<close>

text \<open>
  \<open>formatBytes\<close> never indexes \<open>KMGTPE\<close> out of range, and the divisor its loop builds is
  the power of 1024 that the exact quotient \<open>quoPow2\<close> relies on.
\<close>

lemma fbLoop_exp: "n < 1024 ^ Suc k \<Longrightarrow> snd (fbLoop n d e) \<le> e + k"
proof (induction k arbitrary: n d e)
  case 0
  then show ?case by simp
next
  case (Suc k)
  show ?case
  proof (cases "1024 \<le> n")
    case True
    from Suc.prems have "n div 1024 < 1024 ^ Suc k"
      by simp
    from Suc.IH [OF this, of "d * 1024" "Suc e"] True show ?thesis
      by (subst fbLoop.simps) simp
  next
    case False
    then show ?thesis by simp
  qed
qed

lemma formatBytes_index_in_range:
  fixes bytes :: int64
  shows "snd (fbLoop (sint bytes div 1024) 1024 0) < length ''KMGTPE''"
proof -
  have "sint bytes < 2 ^ 63"
    using sint_lt [of bytes] by simp
  then have "sint bytes div 1024 < 1024 ^ Suc 5"
    by simp
  from fbLoop_exp [OF this, of 1024 0] show ?thesis
    by simp
qed

lemma fbLoop_power: "fst (fbLoop n (1024 ^ Suc e) e) = 1024 ^ Suc (snd (fbLoop n (1024 ^ Suc e) e))"
proof (induction n "1024 ^ Suc e :: int" e rule: fbLoop.induct)
  case (1 n exp)
  show ?case
  proof (cases "1024 \<le> n")
    case True
    have "(1024::int) ^ Suc exp * 1024 = 1024 ^ Suc (Suc exp)"
      by simp
    with 1 True show ?thesis
      by (subst (1 2) fbLoop.simps) (simp del: fbLoop.simps power_Suc)
  next
    case False
    then show ?thesis by simp
  qed
qed

lemma pow2Exp_power: "pow2Exp (2 ^ k) = k"
proof (induction k)
  case 0
  then show ?case by simp
next
  case (Suc k)
  have "(1::int) < 2 ^ Suc k"
    by (smt (verit) one_less_power zero_less_Suc)
  with Suc show ?case
    by (subst pow2Exp.simps) simp
qed

text \<open>
  \<open>main\<close> compiles and applies the patterns of the flags only: the fields
  \<open>ExcludePattern\<close> and \<open>IncludePattern\<close> of the resolved configuration, which a
  configuration file can set, have no effect on a run.
\<close>

lemma shouldProcessFile_patterns_unused:
  "shouldProcessFile L path info (config\<lparr>ExcludePattern := p, IncludePattern := q\<rparr>) ex inc
     = shouldProcessFile L path info config ex inc"
  by (simp add: shouldProcessFile_def)

lemma walkFn_patterns_unused:
  "walkFn L (config\<lparr>ExcludePattern := p, IncludePattern := q\<rparr>) ex inc = walkFn L config ex inc"
  by (intro ext)
    (auto simp: walkFn_def shouldProcessFile_patterns_unused Let_def split: prod.splits option.splits)

lemma discover_patterns_unused:
  "discover L os flags (config\<lparr>ExcludePattern := p, IncludePattern := q\<rparr>) = discover L os flags config"
  by (simp add: discover_def walkFn_patterns_unused split: option.splits sum.splits prod.splits)

lemma finish_patterns_unused:
  "finish L E os flags (config\<lparr>ExcludePattern := p, IncludePattern := q\<rparr>) res = finish L E os flags config res"
  by (cases res) (simp add: finish_def Let_def)

lemma config_patterns_ignored:
  "mainRun L E os flags (config\<lparr>ExcludePattern := p, IncludePattern := q\<rparr>) out
     \<longleftrightarrow> mainRun L E os flags config out"
proof
  assume "mainRun L E os flags (config\<lparr>ExcludePattern := p, IncludePattern := q\<rparr>) out"
  then show "mainRun L E os flags config out"
  proof cases
    case (aborted e)
    then show ?thesis
      by (simp add: discover_patterns_unused mainRun.aborted)
  next
    case (sequential filePaths stats)
    with mainRun.sequential [of L os flags config filePaths stats E] show ?thesis
      by (simp add: discover_patterns_unused finish_patterns_unused)
  next
    case (parallel filePaths stats res)
    with mainRun.parallel [of L os flags config filePaths stats res E] show ?thesis
      by (simp add: discover_patterns_unused finish_patterns_unused)
  qed
next
  let ?c = "config\<lparr>ExcludePattern := p, IncludePattern := q\<rparr>"
  assume "mainRun L E os flags config out"
  then show "mainRun L E os flags ?c out"
  proof cases
    case (aborted e)
    then show ?thesis
      by (simp add: discover_patterns_unused mainRun.aborted)
  next
    case (sequential filePaths stats)
    with mainRun.sequential [of L os flags ?c filePaths stats E] show ?thesis
      by (simp add: discover_patterns_unused finish_patterns_unused)
  next
    case (parallel filePaths stats res)
    with mainRun.parallel [of L os flags ?c filePaths stats res E] show ?thesis
      by (simp add: discover_patterns_unused finish_patterns_unused)
  qed
qed

end
